theory Spec2Isabelle
  imports Main "HOL-Library.AList" "HOL-Library.Log_Nat"
begin

section \<open>Habit tracker: data model\<close>

text \<open>
  The program keeps one global object \<open>state = { habits, completions, points }\<close> and
  mutates it from event handlers. The model passes that object explicitly: every
  function that mutates \<open>state\<close> in the source takes a state and returns the new one.

  A day key is the string \<open>YYYY-MM-DD\<close> that \<open>toISOString().slice(0, 10)\<close> yields. It is
  represented by the number of the UTC day it names (days since 1970-01-01, the
  \<open>Day(t)\<close> of ECMA-262): for the years 0000 to 9999 the string and the number determine
  each other and the lexicographic order of the strings is the order of the numbers.
  A \<open>Date\<close> is its time value, the milliseconds since the epoch.

  A JavaScript object with string keys is an association list in insertion order;
  assigning to a key replaces the value in place or appends the key
  (\<open>AList.update\<close>), reading is \<open>map_of\<close>, and \<open>Object.keys\<close> is \<open>map fst\<close>. The keys of
  an object are pairwise distinct, which \<open>wf_state\<close> records.
\<close>

type_synonym habitId = string
type_synonym dateKey = int
type_synonym dayRecord = "(habitId \<times> bool) list"

record habit =
  habit_id :: habitId
  habit_name :: string
  habit_createdAt :: dateKey
  habit_order :: int

record state =
  habits :: "habit list"
  completions :: "(dateKey \<times> dayRecord) list"
  points :: int

definition wf_state :: "state \<Rightarrow> bool" where
  "wf_state s \<longleftrightarrow>
     distinct (map fst (completions s)) \<and>
     list_all (\<lambda>entry. distinct (map fst (snd entry))) (completions s)"

subsection \<open>Dates\<close>

definition msPerDay :: int where
  "msPerDay = 86400000"

text \<open>\<open>d.toISOString().slice(0, 10)\<close>: the UTC day of the time value.\<close>

definition toISOKey :: "int \<Rightarrow> dateKey" where
  "toISOKey t = t div msPerDay"

text \<open>\<open>new Date(key)\<close> for a date-only ISO string: midnight UTC of that day.\<close>

definition Date_of_key :: "dateKey \<Rightarrow> int" where
  "Date_of_key k = k * msPerDay"

text \<open>\<open>getTodayKey()\<close>; the argument is the clock reading of \<open>new Date()\<close>.\<close>

definition getTodayKey :: "int \<Rightarrow> dateKey" where
  "getTodayKey now = toISOKey now"

text \<open>
  \<open>getDate\<close> and \<open>setDate\<close> work on local time. The host's time zone is the function
  \<open>LocalTZA(t, isUTC)\<close> of ECMA-262: the offset in milliseconds of local time from UTC,
  at the UTC instant \<open>t\<close> when \<open>isUTC\<close> holds and at the local time value \<open>t\<close> otherwise.
\<close>

type_synonym zone = "int \<Rightarrow> bool \<Rightarrow> int"

definition LocalTime :: "zone \<Rightarrow> int \<Rightarrow> int" where
  "LocalTime z t = t + z t True"

definition UTC :: "zone \<Rightarrow> int \<Rightarrow> int" where
  "UTC z t = t - z t False"

text \<open>
  \<open>d.setDate(d.getDate() - i)\<close>. With \<open>t = LocalTime(d)\<close>, \<open>setDate(dt)\<close> stores
  \<open>UTC(MakeDate(MakeDay(YearFromTime(t), MonthFromTime(t), dt), TimeWithinDay(t)))\<close>,
  and \<open>MakeDay(y, m, dt)\<close> is the day number of the first of the month plus \<open>dt - 1\<close>;
  for \<open>dt = DateFromTime(t) - i\<close> that is \<open>Day(t) - i\<close>, so the new local time value is
  \<open>t - i * msPerDay\<close>.
\<close>

definition setDate_back :: "zone \<Rightarrow> int \<Rightarrow> int \<Rightarrow> int" where
  "setDate_back z d i = UTC z (LocalTime z d - i * msPerDay)"

text \<open>A host whose local time is always \<open>c\<close> milliseconds ahead of UTC.\<close>

definition fixedZone :: "int \<Rightarrow> zone" where
  "fixedZone c = (\<lambda>t isUTC. c)"

text \<open>
  A host that leaves daylight saving time once: four hours behind UTC before
  2024-11-03T06:00Z (day 20030), five hours behind from then on, as the eastern
  United States did. A local time that occurs twice is read with the offset before
  the transition, so local times before 02:00 of that day are daylight time.
\<close>

definition fallBackZone :: zone where
  "fallBackZone = (\<lambda>t isUTC.
     if isUTC then (if t < 20030 * 86400000 + 6 * 3600000 then - 4 * 3600000 else - 5 * 3600000)
     else (if t < 20030 * 86400000 + 2 * 3600000 then - 4 * 3600000 else - 5 * 3600000))"

subsection \<open>Completion ledger\<close>

text \<open>\<open>Boolean(day[habitId])\<close>: a missing key reads \<open>undefined\<close>, which is falsy.\<close>

fun Boolean :: "bool option \<Rightarrow> bool" where
  "Boolean None = False"
| "Boolean (Some b) = b"

definition ensureDateEntry :: "dateKey \<Rightarrow> state \<Rightarrow> state" where
  "ensureDateEntry dateKey s =
     (case map_of (completions s) dateKey of
        None \<Rightarrow> s\<lparr>completions := AList.update dateKey [] (completions s)\<rparr>
      | Some day \<Rightarrow> s)"

definition isHabitDoneOnDate :: "state \<Rightarrow> habitId \<Rightarrow> dateKey \<Rightarrow> bool" where
  "isHabitDoneOnDate s habitId dateKey =
     (case map_of (completions s) dateKey of
        None \<Rightarrow> False
      | Some day \<Rightarrow> Boolean (map_of day habitId))"

text \<open>
  \<open>toggleHabitForToday\<close>, without the calls that only write to storage and to the
  page. After \<open>ensureDateEntry\<close> the entry of today exists, so the \<open>None\<close> branch below
  is never taken (\<open>ensureDateEntry_present\<close>).
\<close>

definition toggleHabitForToday :: "int \<Rightarrow> habitId \<Rightarrow> bool \<Rightarrow> state \<Rightarrow> state" where
  "toggleHabitForToday now habitId done s0 =
     (let todayKey = getTodayKey now;
          s = ensureDateEntry todayKey s0;
          day = (case map_of (completions s) todayKey of None \<Rightarrow> [] | Some d \<Rightarrow> d);
          alreadyDone = Boolean (map_of day habitId);
          s1 = s\<lparr>completions :=
                   AList.update todayKey (AList.update habitId done day) (completions s)\<rparr>
      in if \<not> alreadyDone \<and> done then s1\<lparr>points := points s1 + 5\<rparr>
         else if alreadyDone \<and> \<not> done then s1\<lparr>points := max 0 (points s1 - 5)\<rparr>
         else s1)"

text \<open>
  The only effect of \<open>renderHabitList\<close> on \<open>state\<close>: it calls \<open>ensureDateEntry\<close> for today
  before it builds the list. What it writes to the page (the check boxes, and one
  \<open>computeStreak\<close> per habit) is not part of the state.
\<close>

definition renderHabitList :: "int \<Rightarrow> state \<Rightarrow> state" where
  "renderHabitList now s = ensureDateEntry (getTodayKey now) s"

text \<open>The \<open>change\<close> handler of a habit's check box.\<close>

definition habit_input_change :: "int \<Rightarrow> habitId \<Rightarrow> bool \<Rightarrow> state \<Rightarrow> state" where
  "habit_input_change now habitId checked s =
     renderHabitList now (toggleHabitForToday now habitId checked s)"

text \<open>The \<open>click\<close> handler of \<open>clearTodayButton\<close>.\<close>

definition clearTodayButton_click :: "int \<Rightarrow> state \<Rightarrow> state" where
  "clearTodayButton_click now s =
     (let todayKey = getTodayKey now in
      case map_of (completions s) todayKey of
        None \<Rightarrow> s
      | Some day \<Rightarrow>
          (let s1 = fold (\<lambda>habitId st.
                      if Boolean (map_of day habitId)
                      then st\<lparr>points := max 0 (points st - 5)\<rparr> else st)
                    (map fst day) s;
               s2 = s1\<lparr>completions := AList.update todayKey [] (completions s1)\<rparr>
           in renderHabitList now s2))"

subsection \<open>Streaks\<close>

text \<open>
  The loop of \<open>computeStreak\<close> has no exit but the \<open>break\<close>, so it is a partial function:
  \<open>None\<close> stands for a walk that never ends. The cursor is a time value without bounds;
  the model follows the program as long as the cursor stays in the years 0000 to 9999.
\<close>

partial_function (option) streakLoop :: "zone \<Rightarrow> state \<Rightarrow> habitId \<Rightarrow> int \<Rightarrow> nat \<Rightarrow> nat option" where
  "streakLoop z s habitId cursor streak =
     (let key = toISOKey cursor in
      if (case map_of (completions s) key of
            None \<Rightarrow> True
          | Some day \<Rightarrow> \<not> Boolean (map_of day habitId))
      then Some streak
      else streakLoop z s habitId (setDate_back z cursor 1) (streak + 1))"

declare streakLoop.simps [code]

definition computeStreak :: "zone \<Rightarrow> int \<Rightarrow> state \<Rightarrow> habitId \<Rightarrow> nat option" where
  "computeStreak z now s habitId =
     streakLoop z s habitId (Date_of_key (getTodayKey now)) 0"

subsection \<open>Calendar\<close>

text \<open>\<open>buildCalendarRange\<close>: the cells \<open>{ key, date }\<close> for \<open>i = daysBack - 1\<close> down to \<open>0\<close>.\<close>

definition buildCalendarRange :: "zone \<Rightarrow> int \<Rightarrow> nat \<Rightarrow> (dateKey \<times> int) list" where
  "buildCalendarRange z now daysBack =
     (let today = Date_of_key (getTodayKey now) in
      map (\<lambda>i. let d = setDate_back z today (int i) in (toISOKey d, d))
          (rev [0..<daysBack]))"

text \<open>
  \<open>getDateCompletionQuality\<close>. The empty string is the answer for a day that gets no
  class on the calendar, the day the specification calls unrecorded.
\<close>

definition getDateCompletionQuality :: "state \<Rightarrow> dateKey \<Rightarrow> string" where
  "getDateCompletionQuality s dateKey =
     (case map_of (completions s) dateKey of
        None \<Rightarrow> ''''
      | Some day \<Rightarrow>
          (let totalHabits = length (habits s) in
           if totalHabits = 0 then ''''
           else
             (let doneCount = fold (\<lambda>habit c.
                                if Boolean (map_of day (habit_id habit)) then c + 1 else c)
                              (habits s) (0::nat)
              in if doneCount = 0 then ''missed''
                 else if doneCount = totalHabits then ''done''
                 else ''partial'')))"

subsection \<open>Numbers\<close>

text \<open>
  \<open>String(n)\<close> for an integer \<open>n\<close> (below \<open>10\<^sup>2\<^sup>1\<close> in size, where JavaScript prints all
  digits), as template literals insert it.
\<close>

function natToString :: "nat \<Rightarrow> string" where
  "natToString n =
     (if n < 10 then [''0123456789'' ! n]
      else natToString (n div 10) @ [''0123456789'' ! (n mod 10)])"
  by pat_completeness auto
termination
  by (relation "measure id") auto

definition toString :: "int \<Rightarrow> string" where
  "toString n = (if n < 0 then CHR ''-'' # natToString (nat (- n)) else natToString (nat n))"

text \<open>
  The operators \<open>/\<close> and \<open>*\<close> work on IEEE 754 binary64 numbers: the exact quotient or
  product is rounded to the nearest number with a significand of 53 bits, a tie going
  to the even significand. The values are rationals here; \<open>binary64\<close> rounds one, for
  magnitudes in the normal range (\<open>2\<^sup>-\<^sup>1\<^sup>0\<^sup>2\<^sup>2\<close> up to \<open>2\<^sup>1\<^sup>0\<^sup>2\<^sup>4\<close>), which is where the
  percentages of this program lie.
\<close>

definition pow2 :: "int \<Rightarrow> rat" where
  "pow2 e = (if 0 \<le> e then 2 ^ nat e else 1 / 2 ^ nat (- e))"

text \<open>The exponent \<open>\<lfloor>log\<^sub>2 x\<rfloor>\<close> of a positive rational.\<close>

definition ilog2 :: "rat \<Rightarrow> int" where
  "ilog2 x =
     (let (n, d) = quotient_of x; b = bitlen n - bitlen d
      in if pow2 b \<le> x then b else b - 1)"

definition roundTiesToEven :: "rat \<Rightarrow> int" where
  "roundTiesToEven x =
     (let f = \<lfloor>x\<rfloor>; r = x - of_int f
      in if r < 1 / 2 then f
         else if 1 / 2 < r then f + 1
         else if even f then f else f + 1)"

definition binary64 :: "rat \<Rightarrow> rat" where
  "binary64 x =
     (if x = 0 then 0
      else (let ulp = pow2 (ilog2 \<bar>x\<bar> - 52)
            in sgn x * of_int (roundTiesToEven (\<bar>x\<bar> / ulp)) * ulp))"

definition fdiv :: "rat \<Rightarrow> rat \<Rightarrow> rat" where
  "fdiv a b = binary64 (a / b)"

definition fmul :: "rat \<Rightarrow> rat \<Rightarrow> rat" where
  "fmul a b = binary64 (a * b)"

text \<open>\<open>Math.round\<close>: the nearest integer, a tie going up.\<close>

definition Math_round :: "rat \<Rightarrow> int" where
  "Math_round x = \<lfloor>x + 1 / 2\<rfloor>"

subsection \<open>Levels\<close>

record level =
  label :: string
  threshold :: int

definition LEVELS :: "level list" where
  "LEVELS =
     [\<lparr>label = ''Seedling'', threshold = 0\<rparr>,
      \<lparr>label = ''Sprout'', threshold = 40\<rparr>,
      \<lparr>label = ''Sapling'', threshold = 120\<rparr>,
      \<lparr>label = ''Young tree'', threshold = 260\<rparr>,
      \<lparr>label = ''Grove guardian'', threshold = 480\<rparr>]"

record levelInfo =
  info_label :: string
  progressPercent :: int
  caption :: string

text \<open>\<open>LEVELS[i + 1] || null\<close>: reading past the end gives \<open>undefined\<close>, hence \<open>null\<close>.\<close>

definition nth_or_null :: "'a list \<Rightarrow> nat \<Rightarrow> 'a option" where
  "nth_or_null xs i = (if i < length xs then Some (xs ! i) else None)"

text \<open>The \<open>for\<close> loop of \<open>getLevelInfo\<close>, on the pair \<open>(current, next)\<close>.\<close>

definition levelSearch :: "int \<Rightarrow> level \<times> level option" where
  "levelSearch pts =
     fold (\<lambda>i (current, next).
             if threshold (LEVELS ! i) \<le> pts
             then (LEVELS ! i, nth_or_null LEVELS (i + 1))
             else (current, next))
          [0..<length LEVELS] (LEVELS ! 0, None)"

text \<open>
  The caption of the top tier holds an en dash, three bytes in UTF-8. A \<open>span\<close> of zero
  cannot occur with the table above.
\<close>

definition getLevelInfo :: "int \<Rightarrow> levelInfo" where
  "getLevelInfo pts =
     (case levelSearch pts of
        (current, None) \<Rightarrow>
          \<lparr>info_label = label current, progressPercent = 100,
           caption = ''You reached the top tier '' @ [CHR 0xE2, CHR 0x80, CHR 0x93] @
                     '' keep the grove thriving!''\<rparr>
      | (current, Some next) \<Rightarrow>
          (let span = threshold next - threshold current;
               into = pts - threshold current;
               pct = min 100 (Math_round (fmul (fdiv (of_int into) (of_int span)) 100))
           in \<lparr>info_label = label current, progressPercent = pct,
               caption = toString (threshold next - pts) @ '' points until '' @
                         label next @ ''.''\<rparr>))"

subsection \<open>Adding a habit\<close>

text \<open>
  \<open>String.prototype.trim\<close> on a string of code units below 256: the white space and
  line terminators in that range are tab, line feed, vertical tab, form feed, carriage
  return, space and no-break space.
\<close>

definition isWhiteSpace :: "char \<Rightarrow> bool" where
  "isWhiteSpace c \<longleftrightarrow>
     c \<in> set [CHR 0x09, CHR 0x0A, CHR 0x0B, CHR 0x0C, CHR 0x0D, CHR 0x20, CHR 0xA0]"

definition trim :: "string \<Rightarrow> string" where
  "trim v = rev (dropWhile isWhiteSpace (rev (dropWhile isWhiteSpace v)))"

text \<open>
  The \<open>submit\<close> handler of \<open>addHabitForm\<close>; \<open>v\<close> is the text of the input field and
  \<open>now\<close> the clock reading, which \<open>Date.now()\<close> and \<open>getTodayKey()\<close> both take. An
  \<open>order\<close> is a number, for which \<open>h.order || 0\<close> is \<open>h.order\<close>.
\<close>

definition addHabitForm_submit :: "int \<Rightarrow> string \<Rightarrow> state \<Rightarrow> state" where
  "addHabitForm_submit now v s =
     (let name = trim v in
      if name = [] then s
      else
        (let new_id = ''habit_'' @ toString now;
             new_order = (case habits s of
                        [] \<Rightarrow> 0
                      | h # hs \<Rightarrow> fold max (map habit_order hs) (habit_order h) + 1);
             s1 = s\<lparr>habits := habits s @
                    [\<lparr>habit_id = new_id, habit_name = name,
                      habit_createdAt = getTodayKey now, habit_order = new_order\<rparr>]\<rparr>
         in renderHabitList now s1))"

subsection \<open>Sequences of calls\<close>

text \<open>A user action, with the clock reading at which it happens.\<close>

datatype event =
  SetDone int habitId bool
| ClearDay int

fun apply_event :: "event \<Rightarrow> state \<Rightarrow> state" where
  "apply_event (SetDone now h v) s = habit_input_change now h v s"
| "apply_event (ClearDay now) s = clearTodayButton_click now s"

definition run :: "event list \<Rightarrow> state \<Rightarrow> state" where
  "run evs s = fold apply_event evs s"

subsection \<open>Initial state and example snapshots\<close>

definition DEFAULT_HABITS :: "(habitId \<times> string) list" where
  "DEFAULT_HABITS =
     [(''water'', ''Drink 6 glasses of water''),
      (''move'', ''Move your body for 20 minutes''),
      (''read'', ''Read for 10 minutes'')]"

definition createInitialState :: "int \<Rightarrow> state" where
  "createInitialState now =
     (let today = getTodayKey now in
      \<lparr>habits = map (\<lambda>(index, h). \<lparr>habit_id = fst h, habit_name = snd h,
                                    habit_createdAt = today, habit_order = int index\<rparr>)
                     (enumerate 0 DEFAULT_HABITS),
       completions = [],
       points = 0\<rparr>)"

text \<open>A clock reading on 2024-11-04 (day 20031), at 06:00 UTC.\<close>

definition exampleNow :: int where
  "exampleNow = 1730700000000"

text \<open>
  A snapshot with the default habits in which one habit is done on day 20031 and the
  points are zero.
\<close>

definition zeroPointsState :: state where
  "zeroPointsState =
     (createInitialState exampleNow)\<lparr>completions := [(20031, [(''water'', True)])]\<rparr>"

text \<open>
  The habit \<open>water\<close> done on day 20031 and on day 20029, and not on the day between.
\<close>

definition skippedDayState :: state where
  "skippedDayState =
     (createInitialState exampleNow)
       \<lparr>completions := [(20029, [(''water'', True)]), (20031, [(''water'', True)])],
        points := 10\<rparr>"

text \<open>The habit \<open>water\<close> done on day 20031 and the two days before, and on no other.\<close>

definition threeDaysState :: state where
  "threeDaysState =
     (createInitialState exampleNow)
       \<lparr>completions := [(20029, [(''water'', True)]), (20030, [(''water'', True)]),
                        (20031, [(''water'', True)])],
        points := 15\<rparr>"

text \<open>The habit \<open>water\<close> done on each of the \<open>n\<close> days that end with day 20031.\<close>

definition everyDayState :: "nat \<Rightarrow> state" where
  "everyDayState n =
     (createInitialState exampleNow)
       \<lparr>completions := map (\<lambda>i. (20031 - int i, [(''water'', True)])) [0..<n],
        points := 5 * int n\<rparr>"

text \<open>The state of a page that was opened and rendered a day before \<open>exampleNow\<close>.\<close>

definition startedYesterday :: state where
  "startedYesterday =
     renderHabitList (exampleNow - msPerDay) (createInitialState (exampleNow - msPerDay))"

text \<open>
  States of a first day: \<open>water\<close> marked done; \<open>water\<close> marked done and unmarked again;
  \<open>water\<close> marked done and \<open>move\<close> marked done and unmarked again.
\<close>

definition waterDoneState :: state where
  "waterDoneState =
     habit_input_change exampleNow ''water'' True
       (renderHabitList exampleNow (createInitialState exampleNow))"



subsection \<open>Reachable states\<close>

text \<open>
  The states of the program: the initial state, and every state that a render, a change
  of a check box, a click on the clear button or a submitted name makes of one, at any
  clock reading. The last rule is the snapshot that the submit handler stores, which it
  takes before its closing render; what the other handlers store, the rules before give.
  So \<open>loadState\<close> returns a reachable state as long as nothing else writes the storage.
\<close>

inductive reachable :: "state \<Rightarrow> bool" where
  initial: "reachable (createInitialState now)"
| render: "reachable s \<Longrightarrow> reachable (renderHabitList now s)"
| change: "reachable s \<Longrightarrow> reachable (habit_input_change now habitId checked s)"
| clear: "reachable s \<Longrightarrow> reachable (clearTodayButton_click now s)"
| submit: "reachable s \<Longrightarrow> reachable (addHabitForm_submit now v s)"
| stored: "reachable s \<Longrightarrow>
     reachable ((addHabitForm_submit now v s)\<lparr>completions := completions s\<rparr>)"

text \<open>
  The number of true values in the whole ledger, and the states in which every one of
  them is worth five points.
\<close>

definition trueCount :: "state \<Rightarrow> nat" where
  "trueCount s = sum_list (map (\<lambda>entry. length (filter snd (snd entry))) (completions s))"

definition scored :: "state \<Rightarrow> bool" where
  "scored s \<longleftrightarrow> wf_state s \<and> points s = 5 * int (trueCount s)"

section \<open>Properties\<close>

lemma today_example: "getTodayKey exampleNow = 20031"
  by (simp add: exampleNow_def getTodayKey_def toISOKey_def msPerDay_def)

lemma ensureDateEntry_present:
  "map_of (completions (ensureDateEntry k s)) k \<noteq> None"
  by (simp add: ensureDateEntry_def update_conv' split: option.splits)

lemma ensureDateEntry_lookup:
  "map_of (completions (ensureDateEntry k s)) k' =
     (if k' = k \<and> map_of (completions s) k = None then Some [] else map_of (completions s) k')"
  by (simp add: ensureDateEntry_def update_conv' split: option.splits)

lemma ensureDateEntry_points [simp]:
  "points (ensureDateEntry k s) = points s"
  by (simp add: ensureDateEntry_def split: option.splits)

lemma ensureDateEntry_habits [simp]:
  "habits (ensureDateEntry k s) = habits s"
  by (simp add: ensureDateEntry_def split: option.splits)

lemma isHabitDoneOnDate_ensureDateEntry [simp]:
  "isHabitDoneOnDate (ensureDateEntry k s) h d = isHabitDoneOnDate s h d"
  by (simp add: isHabitDoneOnDate_def ensureDateEntry_lookup)

lemma isHabitDoneOnDate_toggle:
  "isHabitDoneOnDate (toggleHabitForToday now h v s) h' d =
     (if h' = h \<and> d = getTodayKey now then v else isHabitDoneOnDate s h' d)"
  by (simp add: toggleHabitForToday_def Let_def isHabitDoneOnDate_def update_conv'
      ensureDateEntry_lookup split: option.splits)

lemma points_toggle:
  "points (toggleHabitForToday now h v s) =
     (if \<not> isHabitDoneOnDate s h (getTodayKey now) \<and> v then points s + 5
      else if isHabitDoneOnDate s h (getTodayKey now) \<and> \<not> v then max 0 (points s - 5)
      else points s)"
  by (simp add: toggleHabitForToday_def Let_def isHabitDoneOnDate_def
      ensureDateEntry_lookup split: option.splits)

subsection \<open>Day quality\<close>

lemma fold_doneCount:
  "fold (\<lambda>habit c. if P habit then c + 1 else c) hs (n::nat) = n + length (filter P hs)"
  by (induction hs arbitrary: n) auto

lemma getDateCompletionQuality_eq:
  "getDateCompletionQuality s d =
     (if map_of (completions s) d = None \<or> habits s = [] then ''''
      else (let doneCount = length (filter (\<lambda>h. isHabitDoneOnDate s (habit_id h) d) (habits s))
            in if doneCount = 0 then ''missed''
               else if doneCount = length (habits s) then ''done''
               else ''partial''))"
  by (auto simp: getDateCompletionQuality_def isHabitDoneOnDate_def fold_doneCount Let_def
      split: option.splits)

text \<open>
  Claim C7: the quality of a day is the empty string (unrecorded) when the day has no
  entry or there is no habit; otherwise, with \<open>doneCount\<close> the number of habits of the
  whole registry for which \<open>isHabitDoneOnDate\<close> holds on that day, it is \<open>missed\<close> for
  \<open>doneCount = 0\<close>, \<open>done\<close> when \<open>doneCount\<close> is the number of habits, and \<open>partial\<close>
  otherwise.
\<close>

theorem dayQuality_classification:
  "getDateCompletionQuality s d =
     (if map_of (completions s) d = None \<or> habits s = [] then ''''
      else (let doneCount = length (filter (\<lambda>h. isHabitDoneOnDate s (habit_id h) d) (habits s))
            in if doneCount = 0 then ''missed''
               else if doneCount = length (habits s) then ''done''
               else ''partial''))"
  by (rule getDateCompletionQuality_eq)

subsection \<open>Clearing today\<close>

lemma fold_clear_points:
  "points (fold (\<lambda>habitId st. if P habitId then st\<lparr>points := max 0 (points st - 5)\<rparr> else st)
             ids s) =
     (if filter P ids = [] then points s
      else max 0 (points s - 5 * int (length (filter P ids))))"
  by (induction ids arbitrary: s) auto

lemma fold_clear_completions:
  "completions (fold (\<lambda>habitId st. if P habitId then st\<lparr>points := max 0 (points st - 5)\<rparr>
                                      else st) ids s) = completions s"
  by (induction ids arbitrary: s) auto

lemma fold_clear_habits:
  "habits (fold (\<lambda>habitId st. if P habitId then st\<lparr>points := max 0 (points st - 5)\<rparr>
                                 else st) ids s) = habits s"
  by (induction ids arbitrary: s) auto

text \<open>With distinct keys, the keys that read as true are the pairs that hold true.\<close>

lemma filter_keys_true:
  assumes "distinct (map fst day)"
  shows "length (filter (\<lambda>h. Boolean (map_of day h)) (map fst day)) = length (filter snd day)"
proof -
  have "filter (\<lambda>h. Boolean (map_of day h)) (map fst day) =
        map fst (filter (\<lambda>p. Boolean (map_of day (fst p))) day)"
    by (simp add: filter_map comp_def)
  also have "filter (\<lambda>p. Boolean (map_of day (fst p))) day = filter snd day"
    using assms by (intro filter_cong) auto
  finally show ?thesis by simp
qed


lemma wf_state_entry:
  "wf_state s \<Longrightarrow> map_of (completions s) d = Some day \<Longrightarrow> distinct (map fst day)"
  by (auto simp: wf_state_def list_all_iff dest!: map_of_SomeD)

lemma clear_absent:
  "map_of (completions s) (getTodayKey now) = None \<Longrightarrow> clearTodayButton_click now s = s"
  by (simp add: clearTodayButton_click_def)

lemma clear_present:
  assumes "map_of (completions s) (getTodayKey now) = Some day"
  shows "points (clearTodayButton_click now s) =
           (if filter (\<lambda>h. Boolean (map_of day h)) (map fst day) = [] then points s
            else max 0 (points s
                   - 5 * int (length (filter (\<lambda>h. Boolean (map_of day h)) (map fst day)))))"
    and "habits (clearTodayButton_click now s) = habits s"
    and "map_of (completions (clearTodayButton_click now s)) d =
           (if d = getTodayKey now then Some [] else map_of (completions s) d)"
  using assms
  by (simp_all add: clearTodayButton_click_def Let_def renderHabitList_def fold_clear_points
      fold_clear_completions fold_clear_habits ensureDateEntry_lookup update_conv')


subsection \<open>Points never go below zero\<close>

lemma points_apply_event: "0 \<le> points s \<Longrightarrow> 0 \<le> points (apply_event e s)"
proof (cases e)
  case (SetDone now h v)
  assume "0 \<le> points s"
  then show ?thesis
    by (simp add: SetDone habit_input_change_def renderHabitList_def points_toggle)
next
  case (ClearDay now)
  assume p: "0 \<le> points s"
  show ?thesis
  proof (cases "map_of (completions s) (getTodayKey now)")
    case None
    with p show ?thesis by (simp add: ClearDay clear_absent)
  next
    case (Some day)
    with p show ?thesis by (simp add: ClearDay clear_present(1)[OF Some])
  qed
qed

lemma points_run: "0 \<le> points s \<Longrightarrow> 0 \<le> points (run evs s)"
  unfolding run_def by (induction evs arbitrary: s) (simp_all add: points_apply_event)

text \<open>
  Claim C2: from a state with \<open>points \<ge> 0\<close>, after every call of any sequence of
  check-box changes (\<open>toggleHabitForToday\<close>) and clicks on the clear button, the points
  are at least zero. The state after the first \<open>k\<close> calls is \<open>run (take k evs) s\<close>.
\<close>

theorem points_nonnegative_invariant:
  "0 \<le> points s \<Longrightarrow> 0 \<le> points (run (take k evs) s)"
  by (rule points_run)

theorem points_nonnegative_invariant_witness:
  "0 \<le> points zeroPointsState \<and>
   0 \<le> points (run (take 2 [SetDone exampleNow ''water'' False, ClearDay exampleNow,
                               SetDone exampleNow ''read'' True]) zeroPointsState)"
proof -
  have p: "0 \<le> points zeroPointsState"
    by (simp add: zeroPointsState_def createInitialState_def)
  show ?thesis
    using points_nonnegative_invariant[OF p, of 2
        "[SetDone exampleNow ''water'' False, ClearDay exampleNow,
          SetDone exampleNow ''read'' True]"] p
    by simp
qed

subsection \<open>Well-formed states\<close>

text \<open>
  The keys of every object stay distinct: the initial state is well formed, and every
  handler keeps a well-formed state well formed.
\<close>

lemma list_all_update:
  "list_all P al \<Longrightarrow> P (k, v) \<Longrightarrow> list_all P (AList.update k v al)"
  by (induction al) auto

lemma wf_state_update:
  assumes "wf_state s" and "distinct (map fst day)"
  shows "wf_state (s\<lparr>completions := AList.update k day (completions s)\<rparr>)"
  using assms by (simp add: wf_state_def distinct_update list_all_update)

lemma wf_state_createInitialState: "wf_state (createInitialState now)"
  by (simp add: wf_state_def createInitialState_def Let_def)

lemma wf_state_ensureDateEntry: "wf_state s \<Longrightarrow> wf_state (ensureDateEntry k s)"
  by (simp add: ensureDateEntry_def wf_state_update split: option.splits)

lemma wf_state_points [simp]: "wf_state (s\<lparr>points := p\<rparr>) = wf_state s"
  by (simp add: wf_state_def)

lemma wf_state_habits [simp]: "wf_state (s\<lparr>habits := hs\<rparr>) = wf_state s"
  by (simp add: wf_state_def)

lemma wf_state_toggle:
  assumes "wf_state s"
  shows "wf_state (toggleHabitForToday now h v s)"
proof -
  let ?s = "ensureDateEntry (getTodayKey now) s"
  have wf: "wf_state ?s" using assms by (rule wf_state_ensureDateEntry)
  obtain day where day: "map_of (completions ?s) (getTodayKey now) = Some day"
    using ensureDateEntry_present[of "getTodayKey now" s] by blast
  have "distinct (map fst (AList.update h v day))"
    using wf_state_entry[OF wf day] by (rule distinct_update)
  then have "wf_state (?s\<lparr>completions :=
      AList.update (getTodayKey now) (AList.update h v day) (completions ?s)\<rparr>)"
    by (rule wf_state_update[OF wf])
  then show ?thesis
    by (cases v) (simp_all add: toggleHabitForToday_def Let_def day)
qed

lemma wf_state_clear:
  assumes "wf_state s"
  shows "wf_state (clearTodayButton_click now s)"
proof (cases "map_of (completions s) (getTodayKey now)")
  case None
  with assms show ?thesis by (simp add: clear_absent)
next
  case (Some day)
  have "wf_state (fold (\<lambda>habitId st. if P habitId then st\<lparr>points := max 0 (points st - 5)\<rparr>
                                      else st) ids s)" for P and ids :: "habitId list"
    using assms by (induction ids arbitrary: s) auto
  then show ?thesis
    by (simp add: clearTodayButton_click_def Some Let_def renderHabitList_def
        wf_state_ensureDateEntry wf_state_update)
qed

lemma wf_state_add: "wf_state s \<Longrightarrow> wf_state (addHabitForm_submit now v s)"
  by (simp add: addHabitForm_submit_def Let_def renderHabitList_def wf_state_ensureDateEntry)

lemma wf_state_run: "wf_state s \<Longrightarrow> wf_state (run evs s)"
proof (induction evs arbitrary: s)
  case Nil
  then show ?case by (simp add: run_def)
next
  case (Cons e evs)
  have "wf_state (apply_event e s)"
    using Cons.prems
    by (cases e)
      (simp_all add: habit_input_change_def renderHabitList_def wf_state_ensureDateEntry
        wf_state_toggle wf_state_clear)
  then have "wf_state (run evs (apply_event e s))" by (rule Cons.IH)
  then show ?case by (simp add: run_def)
qed

subsection \<open>Reachable states\<close>

text \<open>
  Every handler keeps the points at five times the number of true values in the
  ledger, so in a reachable state neither \<open>Math.max\<close> ever takes the zero.
\<close>

lemma sum_update:
  "sum_list (map (\<lambda>entry. f (snd entry)) (AList.update k v al))
     + (case map_of al k of None \<Rightarrow> 0 | Some old \<Rightarrow> f old) =
   sum_list (map (\<lambda>entry. f (snd entry)) al) + (f v :: nat)"
  by (induction al) auto

lemma count_update:
  "length (filter snd (AList.update h v day)) + (if Boolean (map_of day h) then 1 else 0) =
   length (filter snd day) + (if v then 1 else 0)"
  by (induction day) auto

lemma entry_le_trueCount:
  "map_of (completions s) d = Some day \<Longrightarrow> length (filter snd day) \<le> trueCount s"
proof -
  assume "map_of (completions s) d = Some day"
  then have "(d, day) \<in> set (completions s)" by (rule map_of_SomeD)
  then have "length (filter snd day) \<in>
      set (map (\<lambda>entry. length (filter snd (snd entry))) (completions s))"
    by force
  then show ?thesis
    unfolding trueCount_def by (intro member_le_sum_list) simp_all
qed

lemma done_entry_count:
  "Boolean (map_of day h) \<Longrightarrow> 1 \<le> length (filter snd day)"
proof -
  assume "Boolean (map_of day h)"
  then have "map_of day h = Some True" by (cases "map_of day h") auto
  then have "(h, True) \<in> set (filter snd day)" by (auto dest: map_of_SomeD)
  then show ?thesis by (metis length_pos_if_in_set less_eq_Suc_le One_nat_def)
qed

lemma trueCount_ensureDateEntry [simp]: "trueCount (ensureDateEntry k s) = trueCount s"
  using sum_update[of "\<lambda>day. length (filter snd day)" k "[]" "completions s"]
  by (simp add: ensureDateEntry_def trueCount_def split: option.splits)

lemma trueCount_habits [simp]: "trueCount (s\<lparr>habits := hs\<rparr>) = trueCount s"
  by (simp add: trueCount_def)

lemma trueCount_points [simp]: "trueCount (s\<lparr>points := p\<rparr>) = trueCount s"
  by (simp add: trueCount_def)

lemma trueCount_toggle:
  "trueCount (toggleHabitForToday now h v s)
     + (if isHabitDoneOnDate s h (getTodayKey now) then 1 else 0) =
   trueCount s + (if v then 1 else 0)"
proof -
  let ?s = "ensureDateEntry (getTodayKey now) s"
  obtain day where day: "map_of (completions ?s) (getTodayKey now) = Some day"
    using ensureDateEntry_present[of "getTodayKey now" s] by blast
  have was: "isHabitDoneOnDate s h (getTodayKey now) = Boolean (map_of day h)"
    using day isHabitDoneOnDate_ensureDateEntry[of "getTodayKey now" s h "getTodayKey now"]
    by (simp add: isHabitDoneOnDate_def)
  have c: "trueCount (toggleHabitForToday now h v s) =
      sum_list (map (\<lambda>entry. length (filter snd (snd entry)))
        (AList.update (getTodayKey now) (AList.update h v day) (completions ?s)))"
    by (cases v) (simp_all add: toggleHabitForToday_def Let_def day trueCount_def)
  have "trueCount (toggleHabitForToday now h v s) + length (filter snd day) =
      trueCount ?s + length (filter snd (AList.update h v day))"
    using sum_update[of "\<lambda>day. length (filter snd day)" "getTodayKey now"
        "AList.update h v day" "completions ?s"]
    unfolding c by (simp add: day trueCount_def)
  then show ?thesis
    using count_update[of h v day] by (simp add: was)
qed

lemma scored_ensureDateEntry: "scored s \<Longrightarrow> scored (ensureDateEntry k s)"
  by (simp add: scored_def wf_state_ensureDateEntry)

lemma scored_toggle:
  assumes "scored s"
  shows "scored (toggleHabitForToday now h v s)"
proof -
  have "wf_state (toggleHabitForToday now h v s)"
    using assms by (simp add: scored_def wf_state_toggle)
  moreover have "points (toggleHabitForToday now h v s) =
      5 * int (trueCount (toggleHabitForToday now h v s))"
    using assms trueCount_toggle[of now h v s]
    by (auto simp: scored_def points_toggle split: if_splits)
  ultimately show ?thesis by (simp add: scored_def)
qed

lemma scored_clear:
  assumes "scored s"
  shows "scored (clearTodayButton_click now s)"
proof (cases "map_of (completions s) (getTodayKey now)")
  case None
  with assms show ?thesis by (simp add: clear_absent)
next
  case (Some day)
  have wf: "wf_state s" using assms by (simp add: scored_def)
  let ?s' = "clearTodayButton_click now s"
  let ?k = "length (filter snd day)"
  have cnt: "length (filter (\<lambda>h. Boolean (map_of day h)) (map fst day)) = ?k"
    using wf_state_entry[OF wf Some] by (rule filter_keys_true)
  have tc: "trueCount ?s' + ?k = trueCount s"
    using sum_update[of "\<lambda>day. length (filter snd day)" "getTodayKey now" "[]" "completions s"]
    by (simp add: clearTodayButton_click_def Some Let_def renderHabitList_def
        fold_clear_completions trueCount_def ensureDateEntry_def update_conv')
  have "points ?s' = (if ?k = 0 then points s else max 0 (points s - 5 * int ?k))"
    using clear_present(1)[OF Some] cnt by (metis length_0_conv)
  then have "points ?s' = 5 * int (trueCount ?s')"
    using assms tc by (auto simp: scored_def)
  then show ?thesis
    using wf by (simp add: scored_def wf_state_clear)
qed

lemma scored_add: "scored s \<Longrightarrow> scored (addHabitForm_submit now v s)"
  by (simp add: addHabitForm_submit_def Let_def renderHabitList_def scored_ensureDateEntry
      scored_def wf_state_ensureDateEntry)

lemma reachable_scored: "reachable s \<Longrightarrow> scored s"
proof (induction rule: reachable.induct)
  case (initial now)
  show ?case
    by (simp add: scored_def wf_state_createInitialState)
      (simp add: createInitialState_def trueCount_def Let_def)
next
  case (render s now)
  then show ?case by (simp add: renderHabitList_def scored_ensureDateEntry)
next
  case (change s now habitId checked)
  then show ?case
    by (simp add: habit_input_change_def renderHabitList_def scored_ensureDateEntry scored_toggle)
next
  case (clear s now)
  then show ?case by (simp add: scored_clear)
next
  case (submit s now v)
  then show ?case by (simp add: scored_add)
next
  case (stored s now v)
  then show ?case
    by (simp add: scored_def wf_state_def trueCount_def addHabitForm_submit_def Let_def
        renderHabitList_def)
qed

lemma reachable_points: "reachable s \<Longrightarrow> 0 \<le> points s \<and> 5 dvd points s"
  using reachable_scored[of s] by (simp add: scored_def)

lemma reachable_run: "reachable s \<Longrightarrow> reachable (run evs s)"
proof (induction evs arbitrary: s)
  case Nil
  then show ?case by (simp add: run_def)
next
  case (Cons e evs)
  have "reachable (apply_event e s)"
    using Cons.prems by (cases e) (simp_all add: reachable.change reachable.clear)
  then have "reachable (run evs (apply_event e s))" by (rule Cons.IH)
  then show ?case by (simp add: run_def)
qed

lemma reachable_waterDoneState: "reachable waterDoneState"
  unfolding waterDoneState_def by (intro reachable.intros)



lemma waterDoneState_eq:
  "waterDoneState =
     (createInitialState exampleNow)\<lparr>completions := [(20031, [(''water'', True)])], points := 5\<rparr>"
  by (simp add: waterDoneState_def habit_input_change_def renderHabitList_def
      toggleHabitForToday_def ensureDateEntry_def today_example Let_def createInitialState_def)



lemma done_points:
  assumes "reachable s" and "isHabitDoneOnDate s h d"
  shows "5 \<le> points s"
proof -
  from assms(2) obtain day where day: "map_of (completions s) d = Some day"
    and b: "Boolean (map_of day h)"
    by (auto simp: isHabitDoneOnDate_def split: option.splits)
  have "1 \<le> trueCount s"
    using done_entry_count[OF b] entry_le_trueCount[OF day] by linarith
  then show ?thesis
    using reachable_scored[OF assms(1)] by (simp add: scored_def)
qed

subsection \<open>Marking a habit\<close>

text \<open>
  Claim C1: after \<open>toggleHabitForToday\<close> with the value \<open>v\<close>, \<open>isHabitDoneOnDate\<close> for
  that habit and today is \<open>v\<close>, and the points change by \<open>+5\<close> when the habit was not done
  and \<open>v\<close> is true, by \<open>-5\<close> when it was done and \<open>v\<close> is false, and by \<open>0\<close> otherwise, in
  every state that the program reaches.
\<close>

theorem toggleHabitForToday_postcondition:
  "reachable s \<Longrightarrow>
     isHabitDoneOnDate (toggleHabitForToday now h v s) h (getTodayKey now) = v \<and>
     points (toggleHabitForToday now h v s) - points s =
       (if \<not> isHabitDoneOnDate s h (getTodayKey now) \<and> v then 5
        else if isHabitDoneOnDate s h (getTodayKey now) \<and> \<not> v then - 5
        else 0)"
  using done_points[of s h "getTodayKey now"]
  by (auto simp: isHabitDoneOnDate_toggle points_toggle)

text \<open>
  In the state where \<open>water\<close> is done: unmarking it takes five points, marking it again
  gives none, and marking \<open>read\<close> gives five.
\<close>

theorem toggleHabitForToday_postcondition_witness:
  "reachable waterDoneState \<and>
   isHabitDoneOnDate waterDoneState ''water'' (getTodayKey exampleNow) \<and>
   \<not> isHabitDoneOnDate (toggleHabitForToday exampleNow ''water'' False waterDoneState)
       ''water'' (getTodayKey exampleNow) \<and>
   points (toggleHabitForToday exampleNow ''water'' False waterDoneState)
     - points waterDoneState = - 5 \<and>
   points (toggleHabitForToday exampleNow ''water'' True waterDoneState)
     - points waterDoneState = 0 \<and>
   points (toggleHabitForToday exampleNow ''read'' True waterDoneState)
     - points waterDoneState = 5"
proof -
  have w: "isHabitDoneOnDate waterDoneState ''water'' (getTodayKey exampleNow)"
    by (simp add: waterDoneState_eq isHabitDoneOnDate_def today_example)
  have r: "\<not> isHabitDoneOnDate waterDoneState ''read'' (getTodayKey exampleNow)"
    by (simp add: waterDoneState_eq isHabitDoneOnDate_def today_example)
  show ?thesis
    using toggleHabitForToday_postcondition[OF reachable_waterDoneState,
        of exampleNow "''water''" False]
      toggleHabitForToday_postcondition[OF reachable_waterDoneState,
        of exampleNow "''water''" True]
      toggleHabitForToday_postcondition[OF reachable_waterDoneState,
        of exampleNow "''read''" True]
      w r reachable_waterDoneState
    by simp
qed

subsection \<open>Clearing today, in reachable states\<close>




subsection \<open>Rendering the habit list\<close>

lemma habits_toggle [simp]: "habits (toggleHabitForToday now h v s) = habits s"
  by (simp add: toggleHabitForToday_def Let_def)

lemma entry_toggle:
  "map_of (completions (toggleHabitForToday now h v s)) (getTodayKey now) \<noteq> None"
  by (simp add: toggleHabitForToday_def Let_def update_conv')

lemma quality_after_done:
  assumes "h \<in> habit_id ` set (habits s)"
  shows "getDateCompletionQuality (toggleHabitForToday now h True s) (getTodayKey now)
           \<in> {''done'', ''partial''}"
proof -
  let ?s' = "toggleHabitForToday now h True s"
  from assms obtain x where x: "x \<in> set (habits s)" "habit_id x = h" by auto
  then have "x \<in> set (filter (\<lambda>h. isHabitDoneOnDate ?s' (habit_id h) (getTodayKey now))
                        (habits s))"
    by (simp add: isHabitDoneOnDate_toggle)
  then have "filter (\<lambda>h. isHabitDoneOnDate ?s' (habit_id h) (getTodayKey now)) (habits s) \<noteq> []"
    by (metis empty_iff empty_set)
  moreover have "habits s \<noteq> []" using x by auto
  ultimately show ?thesis
    using entry_toggle[of now h True s]
    by (simp add: getDateCompletionQuality_eq Let_def)
qed

text \<open>
  Claim C10: rendering the habit list creates an empty entry for today. With at least
  one habit and no entry for today, the quality of today is the empty string
  (unrecorded) before \<open>renderHabitList\<close> and \<open>missed\<close> after it, and it stays so until a
  habit of the registry is marked done, which makes it \<open>done\<close> or \<open>partial\<close>.
\<close>

theorem render_materializes_today:
  assumes "habits s \<noteq> []" and "map_of (completions s) (getTodayKey now) = None"
  shows "getDateCompletionQuality s (getTodayKey now) = '''' \<and>
         map_of (completions (renderHabitList now s)) (getTodayKey now) = Some [] \<and>
         getDateCompletionQuality (renderHabitList now s) (getTodayKey now) = ''missed'' \<and>
         (\<forall>h. h \<in> habit_id ` set (habits s) \<longrightarrow>
            getDateCompletionQuality (toggleHabitForToday now h True (renderHabitList now s))
              (getTodayKey now) \<in> {''done'', ''partial''})"
proof -
  have a: "getDateCompletionQuality s (getTodayKey now) = ''''"
    using assms by (simp add: getDateCompletionQuality_eq)
  have b: "map_of (completions (renderHabitList now s)) (getTodayKey now) = Some []"
    using assms by (simp add: renderHabitList_def ensureDateEntry_lookup)
  have c: "getDateCompletionQuality (renderHabitList now s) (getTodayKey now) = ''missed''"
    using assms b
    by (simp add: getDateCompletionQuality_eq isHabitDoneOnDate_def renderHabitList_def)
  have d: "getDateCompletionQuality (toggleHabitForToday now h True (renderHabitList now s))
              (getTodayKey now) \<in> {''done'', ''partial''}"
    if "h \<in> habit_id ` set (habits s)" for h
    using quality_after_done[of h "renderHabitList now s" now] that
    by (simp add: renderHabitList_def)
  from a b c d show ?thesis by blast
qed

theorem render_materializes_today_witness:
  "habits (createInitialState exampleNow) \<noteq> [] \<and>
   map_of (completions (createInitialState exampleNow)) (getTodayKey exampleNow) = None \<and>
   getDateCompletionQuality (createInitialState exampleNow) (getTodayKey exampleNow) = '''' \<and>
   getDateCompletionQuality (renderHabitList exampleNow (createInitialState exampleNow))
     (getTodayKey exampleNow) = ''missed''"
proof -
  have h: "habits (createInitialState exampleNow) \<noteq> []"
    by (simp add: createInitialState_def DEFAULT_HABITS_def Let_def)
  have e: "map_of (completions (createInitialState exampleNow)) (getTodayKey exampleNow) = None"
    by (simp add: createInitialState_def Let_def)
  show ?thesis
    using render_materializes_today[OF h e] h e by simp
qed

subsection \<open>Streaks\<close>

lemma toISOKey_Date_of_key [simp]: "toISOKey (Date_of_key k) = k"
  by (simp add: toISOKey_def Date_of_key_def msPerDay_def)

text \<open>With a fixed offset, \<open>setDate(getDate() - i)\<close> moves the date by \<open>i\<close> whole days.\<close>

lemma setDate_back_fixedZone:
  "setDate_back (fixedZone c) (Date_of_key k) i = Date_of_key (k - i)"
  by (simp add: setDate_back_def fixedZone_def UTC_def LocalTime_def Date_of_key_def
      algebra_simps)

lemma streak_test:
  "(case map_of (completions s) key of None \<Rightarrow> True | Some day \<Rightarrow> \<not> Boolean (map_of day h)) =
     (\<not> isHabitDoneOnDate s h key)"
  by (simp add: isHabitDoneOnDate_def split: option.splits)

text \<open>In any time zone, a habit that is not done today has the streak zero.\<close>

lemma computeStreak_not_done_today:
  "\<not> isHabitDoneOnDate s h (getTodayKey now) \<Longrightarrow> computeStreak z now s h = Some 0"
  unfolding computeStreak_def by (subst streakLoop.simps) (simp add: streak_test)

lemma streakLoop_fixedZone:
  assumes "\<forall>i<m. isHabitDoneOnDate s h (k - int i)"
    and "\<not> isHabitDoneOnDate s h (k - int m)"
  shows "streakLoop (fixedZone c) s h (Date_of_key k) acc = Some (acc + m)"
  using assms
proof (induction m arbitrary: k acc)
  case 0
  then show ?case
    by (subst streakLoop.simps) (simp add: streak_test)
next
  case (Suc m)
  from Suc.prems(1) have today: "isHabitDoneOnDate s h k" by force
  have before: "\<forall>i<m. isHabitDoneOnDate s h (k - 1 - int i)"
  proof (intro allI impI)
    fix i assume "i < m"
    then have "isHabitDoneOnDate s h (k - int (Suc i))" using Suc.prems(1) by auto
    then show "isHabitDoneOnDate s h (k - 1 - int i)" by (simp add: algebra_simps)
  qed
  have stop: "\<not> isHabitDoneOnDate s h (k - 1 - int m)"
    using Suc.prems(2) by (simp add: algebra_simps)
  have "streakLoop (fixedZone c) s h (Date_of_key k) acc =
        streakLoop (fixedZone c) s h (Date_of_key (k - 1)) (acc + 1)"
    by (subst streakLoop.simps) (simp add: streak_test today setDate_back_fixedZone)
  also have "\<dots> = Some (acc + 1 + m)"
    by (rule Suc.IH[OF before stop])
  finally show ?case by simp
qed

lemma keys_lower_bound: "\<exists>B. \<forall>x \<in> set (ks :: int list). B < x"
proof (induction ks)
  case Nil
  show ?case by simp
next
  case (Cons x xs)
  then obtain B where "\<forall>y \<in> set xs. B < y" by blast
  then have "\<forall>y \<in> set (x # xs). min B (x - 1) < y" by auto
  then show ?case by blast
qed

lemma done_has_entry:
  "isHabitDoneOnDate s h d \<Longrightarrow> d \<in> set (map fst (completions s))"
  by (auto simp: isHabitDoneOnDate_def split: option.splits dest!: map_of_SomeD
      intro: rev_image_eqI)

text \<open>The ledger is finite, so below every day there is a day that is not done.\<close>

lemma streak_ends:
  "\<exists>m. (\<forall>i<m. isHabitDoneOnDate s h (k - int i)) \<and> \<not> isHabitDoneOnDate s h (k - int m)"
proof -
  obtain B where B: "\<forall>x \<in> set (map fst (completions s)). B < x"
    using keys_lower_bound by blast
  have "k - int (nat (k - B)) \<le> B" by simp
  then have "k - int (nat (k - B)) \<notin> set (map fst (completions s))"
    using B by force
  then have "\<not> isHabitDoneOnDate s h (k - int (nat (k - B)))"
    using done_has_entry by blast
  then have "\<exists>m. \<not> isHabitDoneOnDate s h (k - int m)" by blast
  then obtain m where "\<not> isHabitDoneOnDate s h (k - int m)"
    and "\<forall>i<m. \<not> \<not> isHabitDoneOnDate s h (k - int i)"
    using exists_least_iff[of "\<lambda>m. \<not> isHabitDoneOnDate s h (k - int m)"] by blast
  then show ?thesis by blast
qed

lemma run_of_done_days_bound:
  assumes "\<forall>i<m. isHabitDoneOnDate s h (k - int i)"
  shows "m \<le> length (completions s)"
proof -
  have "(\<lambda>i. k - int i) ` {..<m} \<subseteq> set (map fst (completions s))"
    using assms done_has_entry by blast
  then have "card ((\<lambda>i. k - int i) ` {..<m}) \<le> card (set (map fst (completions s)))"
    by (intro card_mono) auto
  moreover have "inj_on (\<lambda>i. k - int i) {..<m}"
    by (auto simp: inj_on_def)
  ultimately have "m \<le> card (set (map fst (completions s)))"
    by (simp add: card_image)
  also have "\<dots> \<le> length (map fst (completions s))" by (rule card_length)
  finally show ?thesis by simp
qed

text \<open>
  In a host with a fixed offset from UTC, \<open>computeStreak\<close> returns, and what it returns
  is the number of consecutive days, ending with today, on which the habit is done.
\<close>

lemma computeStreak_fixedZone:
  "\<exists>n. computeStreak (fixedZone c) now s h = Some n \<and>
       (\<forall>i<n. isHabitDoneOnDate s h (getTodayKey now - int i)) \<and>
       \<not> isHabitDoneOnDate s h (getTodayKey now - int n) \<and>
       n \<le> length (completions s)"
proof -
  obtain m where m: "\<forall>i<m. isHabitDoneOnDate s h (getTodayKey now - int i)"
    "\<not> isHabitDoneOnDate s h (getTodayKey now - int m)"
    using streak_ends by blast
  have "computeStreak (fixedZone c) now s h = Some m"
    using streakLoop_fixedZone[OF m, of c 0] by (simp add: computeStreak_def)
  with m run_of_done_days_bound[OF m(1)] show ?thesis by blast
qed

text \<open>
  Claim C4: \<open>computeStreak\<close> is the number of consecutive days, ending with and including
  today, on which the habit is done; a habit done today and the two days before and
  missed three days ago has the streak 3. The walk steps back with
  \<open>setDate(getDate() - 1)\<close>, which is a day of local time, and reads the key from the UTC
  date. Where local time leaves daylight saving time the step is 25 hours long and the
  walk passes over one UTC day, here yesterday (day 20030). In \<open>threeDaysState\<close> the
  habit \<open>water\<close> is done today and the two days before and not three days ago, and the
  streak is 2, not 3. In \<open>skippedDayState\<close> it is done today and two days ago, not
  yesterday, and the streak is 2, not 1.
\<close>

theorem computeStreak_skips_day:
  "isHabitDoneOnDate threeDaysState ''water'' (getTodayKey exampleNow) \<and>
   isHabitDoneOnDate threeDaysState ''water'' (getTodayKey exampleNow - 1) \<and>
   isHabitDoneOnDate threeDaysState ''water'' (getTodayKey exampleNow - 2) \<and>
   \<not> isHabitDoneOnDate threeDaysState ''water'' (getTodayKey exampleNow - 3) \<and>
   computeStreak fallBackZone exampleNow threeDaysState ''water'' = Some 2 \<and>
   isHabitDoneOnDate skippedDayState ''water'' (getTodayKey exampleNow) \<and>
   \<not> isHabitDoneOnDate skippedDayState ''water'' (getTodayKey exampleNow - 1) \<and>
   computeStreak fallBackZone exampleNow skippedDayState ''water'' = Some 2"
  by code_simp

lemma map_of_const_entries:
  "map_of (map (\<lambda>i. (f i, v)) xs) d = (if d \<in> f ` set xs then Some v else None)"
  by (induction xs) auto

lemma everyDayState_done:
  "isHabitDoneOnDate (everyDayState n) ''water'' (20031 - int i) \<longleftrightarrow> i < n"
proof -
  have "(20031 - int i \<in> (\<lambda>i. 20031 - int i) ` set [0..<n]) \<longleftrightarrow> i < n"
    by auto
  then show ?thesis
    by (simp add: isHabitDoneOnDate_def everyDayState_def map_of_const_entries)
qed

lemma computeStreak_everyDayState:
  "computeStreak (fixedZone 0) exampleNow (everyDayState n) ''water'' = Some n"
proof -
  have "streakLoop (fixedZone 0) (everyDayState n) ''water'' (Date_of_key 20031) 0 = Some (0 + n)"
    by (rule streakLoop_fixedZone) (simp_all add: everyDayState_done)
  then show ?thesis by (simp add: computeStreak_def today_example)
qed

text \<open>
  Claim C5, as the specification states it: the backward walk is capped, so that
  \<open>computeStreak\<close> ends within a bound that does not grow with the ledger. The loop is
  \<open>while (true)\<close> with the single exit at a day that is not done, and \<open>streak\<close> counts
  its rounds: a ledger with ten years of days done gives 3650 rounds, and no number
  bounds the rounds, since the ledger \<open>everyDayState n\<close> gives \<open>n\<close>.
\<close>

theorem computeStreak_unbounded:
  "computeStreak (fixedZone 0) exampleNow (everyDayState 3650) ''water'' = Some 3650 \<and>
   \<not> (\<exists>B. \<forall>s h n. computeStreak (fixedZone 0) exampleNow s h = Some n \<longrightarrow> n \<le> B)"
proof (rule conjI)
  show "computeStreak (fixedZone 0) exampleNow (everyDayState 3650) ''water'' = Some 3650"
    by (rule computeStreak_everyDayState)
next
  show "\<not> (\<exists>B. \<forall>s h n. computeStreak (fixedZone 0) exampleNow s h = Some n \<longrightarrow> n \<le> B)"
  proof
    assume "\<exists>B. \<forall>s h n. computeStreak (fixedZone 0) exampleNow s h = Some n \<longrightarrow> n \<le> B"
    then obtain B where
      "\<forall>s h n. computeStreak (fixedZone 0) exampleNow s h = Some n \<longrightarrow> n \<le> B"
      by blast
    then have "Suc B \<le> B"
      using computeStreak_everyDayState[of "Suc B"] by blast
    then show False by simp
  qed
qed

text \<open>
  Claim C5, amended: the walk has no cap of its own. In a host with a fixed offset from
  UTC it always ends, at the first day on which the habit is not done, and it counts at
  most as many days as the ledger has day entries, a bound that grows with the ledger.
\<close>

theorem computeStreak_terminates:
  "\<exists>n. computeStreak (fixedZone c) now s h = Some n \<and> n \<le> length (completions s)"
  using computeStreak_fixedZone[of c now s h] by blast

subsection \<open>Calendar window\<close>

lemma upto_rev_map: "map (\<lambda>i. k - int i) (rev [0..<n]) = [k - int n + 1..k]"
proof (induction n)
  case 0
  show ?case by simp
next
  case (Suc n)
  have "[k - int (Suc n) + 1..k] = (k - int n) # [k - int n + 1..k]"
    using upto_rec1[of "k - int (Suc n) + 1" k] by (simp add: algebra_simps)
  with Suc show ?case by simp
qed

text \<open>
  In a host with a fixed offset from UTC the keys of the window are the \<open>n\<close> consecutive
  days that end with today, in ascending order.
\<close>

lemma buildCalendarRange_fixedZone:
  "map fst (buildCalendarRange (fixedZone c) now n) =
     [getTodayKey now - int n + 1..getTodayKey now]"
  by (simp add: buildCalendarRange_def Let_def setDate_back_fixedZone comp_def upto_rev_map)

text \<open>
  Claim C8: the window of 28 days that ends today is 28 consecutive day keys in
  ascending order, the last one today. Each cell is \<open>setDate(getDate() - i)\<close> of today's
  midnight UTC, a date of local time, read back as a UTC date. In a host that left
  daylight saving time the day before (day 20030), the window that ends on day 20031
  has 28 keys in ascending order that end with today, but day 20030 is not among them:
  the window starts a day early and is not consecutive.
\<close>

theorem buildCalendarRange_skips_day:
  "map fst (buildCalendarRange fallBackZone exampleNow 28) = [20003..20029] @ [20031]"
  by code_simp

subsection \<open>Rounding to binary64\<close>

text \<open>
  \<open>ilog2\<close> is the exponent of a positive rational, and \<open>binary64\<close> of it is a
  multiple of the unit in the last place, with a significand of 53 bits, at most half a
  unit away. The double nearest to one tenth is the well-known
  \<open>3602879701896397 / 2\<^sup>5\<^sup>5\<close>.
\<close>

lemma pow2_powi: "pow2 e = 2 powi e"
  by (simp add: pow2_def power_int_def inverse_eq_divide power_one_over)

lemma pow2_pos: "0 < pow2 e"
  by (simp add: pow2_powi)

lemma pow2_Suc: "pow2 (e + 1) = 2 * pow2 e"
  by (simp add: pow2_powi power_int_add)

lemma ilog2_bounds:
  assumes "0 < x"
  shows "pow2 (ilog2 x) \<le> x \<and> x < pow2 (ilog2 x + 1)"
proof -
  obtain n d where q: "quotient_of x = (n, d)" by (cases "quotient_of x")
  then have d: "0 < d" and x: "x = of_int n / of_int d"
    using quotient_of_denom_pos quotient_of_div by blast+
  have n: "0 < n"
    using assms d x by (simp add: zero_less_divide_iff)
  define b where "b = bitlen n - bitlen d"
  have bn: "2 powi (bitlen n - 1) \<le> (of_int n :: rat)" "(of_int n :: rat) < 2 powi (bitlen n)"
  proof -
    have "2 ^ nat (bitlen n - 1) \<le> n" "n < 2 ^ nat (bitlen n)"
      using bitlen_bounds[OF n] by simp_all
    then have "(of_int (2 ^ nat (bitlen n - 1)) :: rat) \<le> of_int n"
      "(of_int n :: rat) < of_int (2 ^ nat (bitlen n))"
      by (simp_all only: of_int_le_iff of_int_less_iff)
    moreover have "1 \<le> bitlen n" using n by (simp add: bitlen_alt_def)
    ultimately show "2 powi (bitlen n - 1) \<le> (of_int n :: rat)" "(of_int n :: rat) < 2 powi (bitlen n)"
      using bitlen_nonneg[of n] by (simp_all add: power_int_def)
  qed
  have bd: "2 powi (bitlen d - 1) \<le> (of_int d :: rat)" "(of_int d :: rat) < 2 powi (bitlen d)"
  proof -
    have "2 ^ nat (bitlen d - 1) \<le> d" "d < 2 ^ nat (bitlen d)"
      using bitlen_bounds[OF d] by simp_all
    then have "(of_int (2 ^ nat (bitlen d - 1)) :: rat) \<le> of_int d"
      "(of_int d :: rat) < of_int (2 ^ nat (bitlen d))"
      by (simp_all only: of_int_le_iff of_int_less_iff)
    moreover have "1 \<le> bitlen d" using d by (simp add: bitlen_alt_def)
    ultimately show "2 powi (bitlen d - 1) \<le> (of_int d :: rat)" "(of_int d :: rat) < 2 powi (bitlen d)"
      using bitlen_nonneg[of d] by (simp_all add: power_int_def)
  qed
  have dpos: "(0::rat) < of_int d" using d by simp
  have npos: "(0::rat) < of_int n" using n by simp
  have up: "x < pow2 (b + 1)"
  proof -
    have "of_int n < (2::rat) powi (bitlen n)" by (rule bn(2))
    also have "\<dots> = 2 powi (b + 1) * 2 powi (bitlen d - 1)"
      by (simp add: b_def power_int_add[symmetric])
    also have "\<dots> \<le> 2 powi (b + 1) * of_int d"
      using bd(1) by (simp add: mult_left_mono)
    finally have "of_int n / of_int d < (2::rat) powi (b + 1)"
      using dpos by (simp add: pos_divide_less_eq)
    then show ?thesis by (simp add: x pow2_powi)
  qed
  have low: "pow2 (b - 1) \<le> x"
  proof -
    have "(2::rat) powi (b - 1) * of_int d \<le> 2 powi (b - 1) * 2 powi (bitlen d)"
      using bd(2) by (simp add: mult_left_mono)
    also have "\<dots> = 2 powi (bitlen n - 1)"
      by (simp add: b_def power_int_add[symmetric])
    also have "\<dots> \<le> of_int n" by (rule bn(1))
    finally have "(2::rat) powi (b - 1) \<le> of_int n / of_int d"
      using dpos by (simp add: pos_le_divide_eq)
    then show ?thesis by (simp add: x pow2_powi)
  qed
  show ?thesis
  proof (cases "pow2 b \<le> x")
    case True
    then have "ilog2 x = b" by (simp add: ilog2_def q b_def)
    with True up show ?thesis by simp
  next
    case False
    then have "ilog2 x = b - 1" by (simp add: ilog2_def q b_def)
    with False low show ?thesis by simp
  qed
qed


lemma roundTiesToEven_nearest:
  "\<bar>of_int (roundTiesToEven r) - r\<bar> \<le> 1 / 2"
proof -
  have "of_int \<lfloor>r\<rfloor> \<le> r" "r < of_int \<lfloor>r\<rfloor> + 1" by linarith+
  then show ?thesis
    by (auto simp: roundTiesToEven_def Let_def)
qed

lemma roundTiesToEven_mono_int:
  "of_int m \<le> r \<Longrightarrow> m \<le> roundTiesToEven r"
  "r \<le> of_int m \<Longrightarrow> roundTiesToEven r \<le> m"
proof -
  assume "of_int m \<le> r"
  then have "m \<le> \<lfloor>r\<rfloor>" by (simp add: le_floor_iff)
  then show "m \<le> roundTiesToEven r"
    by (auto simp: roundTiesToEven_def Let_def)
next
  assume a: "r \<le> of_int m"
  show "roundTiesToEven r \<le> m"
  proof (cases "r = of_int m")
    case True
    then show ?thesis by (simp add: roundTiesToEven_def Let_def)
  next
    case False
    with a have "r < of_int m" by simp
    then have "\<lfloor>r\<rfloor> < m" by (simp add: floor_less_iff)
    then show ?thesis by (auto simp: roundTiesToEven_def Let_def)
  qed
qed

lemma binary64_nearest:
  assumes "0 < x"
  shows "\<exists>m. binary64 x = of_int m * pow2 (ilog2 x - 52) \<and>
             2 ^ 52 \<le> m \<and> m \<le> 2 ^ 53 \<and>
             \<bar>binary64 x - x\<bar> \<le> pow2 (ilog2 x - 52) / 2"
proof -
  define u where "u = pow2 (ilog2 x - 52)"
  define m where "m = roundTiesToEven (x / u)"
  have u: "0 < u" by (simp add: u_def pow2_pos)
  have b: "binary64 x = of_int m * u"
    using assms by (simp add: binary64_def Let_def u_def m_def)
  have p: "pow2 (ilog2 x) = 2 ^ 52 * u" "pow2 (ilog2 x + 1) = 2 ^ 53 * u"
    by (simp_all add: u_def pow2_powi power_int_diff power_int_add)
  have "2 ^ 52 * u \<le> x" "x < 2 ^ 53 * u"
    using ilog2_bounds[OF assms] p by simp_all
  then have r: "of_int (2 ^ 52) \<le> x / u" "x / u \<le> of_int (2 ^ 53)"
    using u by (simp_all add: pos_le_divide_eq pos_divide_le_eq)
  have m1: "2 ^ 52 \<le> m"
    unfolding m_def using r(1) by (rule roundTiesToEven_mono_int(1))
  have m2: "m \<le> 2 ^ 53"
    unfolding m_def using r(2) by (rule roundTiesToEven_mono_int(2))
  have "\<bar>of_int m - x / u\<bar> \<le> 1 / 2"
    unfolding m_def by (rule roundTiesToEven_nearest)
  then have "\<bar>of_int m - x / u\<bar> * u \<le> 1 / 2 * u"
    using u by (simp add: mult_right_mono)
  moreover have "(of_int m - x / u) * u = of_int m * u - x"
    using u by (simp add: left_diff_distrib)
  then have "\<bar>of_int m - x / u\<bar> * u = \<bar>of_int m * u - x\<bar>"
    using u by (metis abs_mult abs_of_pos)
  ultimately have "\<bar>binary64 x - x\<bar> \<le> u / 2" by (simp add: b)
  with b m1 m2 show ?thesis unfolding u_def by blast
qed

lemma binary64_examples:
  "binary64 (1 / 10) = 3602879701896397 / 36028797018963968"
  "binary64 (1 / 8) = 1 / 8"
  "binary64 100 = 100"
  "binary64 (23 / 40) = 2589569785738035 / 4503599627370496"
  by code_simp+

lemma pow2_add: "pow2 (a + b) = pow2 a * pow2 b"
  by (simp add: pow2_powi power_int_add)

lemma pow2_less_imp: "pow2 a < pow2 b \<Longrightarrow> a < b"
proof (rule ccontr)
  assume l: "pow2 a < pow2 b" and "\<not> a < b"
  then have "b \<le> a" by simp
  then have "pow2 b \<le> pow2 a"
    unfolding pow2_powi by (intro power_int_increasing) simp_all
  with l show False by simp
qed

lemma roundTiesToEven_of_int [simp]: "roundTiesToEven (of_int z) = z"
  by (simp add: roundTiesToEven_def Let_def)

text \<open>A number with a significand of at most 53 bits is not changed.\<close>

lemma binary64_exact:
  assumes "0 < a" and "a < 2 ^ 53"
  shows "binary64 (of_int a * pow2 q) = of_int a * pow2 q"
proof -
  define x where "x = of_int a * pow2 q"
  have x: "0 < x" using assms(1) by (simp add: x_def pow2_pos)
  define e where "e = ilog2 x"
  have "pow2 e \<le> x" unfolding e_def using ilog2_bounds[OF x] by simp
  also have "x < of_int (2 ^ 53) * pow2 q"
    unfolding x_def using assms(2) pow2_pos[of q]
    by (intro mult_strict_right_mono) (simp_all only: of_int_less_iff)
  also have "\<dots> = pow2 (53 + q)"
    by (simp add: pow2_add) (simp add: pow2_def)
  finally have "e < 53 + q" by (rule pow2_less_imp)
  then have "0 \<le> 52 + q - e" by simp
  then obtain d where d: "52 + q - e = int d"
    using zero_le_imp_eq_int by blast
  have "x / pow2 (e - 52) = x * pow2 (52 - e)"
    by (simp add: pow2_powi power_int_diff power_int_minus field_simps)
  also have "\<dots> = of_int a * pow2 (52 + q - e)"
    by (simp add: x_def pow2_powi power_int_diff power_int_add field_simps)
  also have "\<dots> = of_int (a * 2 ^ d)"
    by (simp add: d pow2_def)
  finally have "x / pow2 (e - 52) = of_int (a * 2 ^ d)" .
  then have r: "roundTiesToEven (x / pow2 (e - 52)) = a * 2 ^ d"
    by (simp only: roundTiesToEven_of_int)
  have "binary64 x = of_int (a * 2 ^ d) * pow2 (e - 52)"
    using x r by (simp add: binary64_def Let_def e_def[symmetric])
  also have "\<dots> = of_int a * (pow2 (int d) * pow2 (e - 52))"
    by (simp add: pow2_def)
  also have "pow2 (int d) * pow2 (e - 52) = pow2 q"
  proof -
    have "int d + (e - 52) = q" using d by simp
    then show ?thesis by (simp only: pow2_add[symmetric])
  qed
  finally show ?thesis by (simp add: x_def)
qed

text \<open>The relative error of rounding is at most \<open>2\<^sup>-\<^sup>5\<^sup>3\<close>.\<close>

lemma binary64_error:
  assumes "0 < x"
  shows "\<bar>binary64 x - x\<bar> \<le> x / 2 ^ 53"
proof -
  obtain m where "\<bar>binary64 x - x\<bar> \<le> pow2 (ilog2 x - 52) / 2"
    using binary64_nearest[OF assms] by blast
  also have "pow2 (ilog2 x - 52) / 2 = pow2 (ilog2 x) / 2 ^ 53"
    by (simp add: pow2_powi power_int_diff)
  also have "\<dots> \<le> x / 2 ^ 53"
    using ilog2_bounds[OF assms] by (simp add: divide_right_mono)
  finally show ?thesis .
qed

text \<open>
  The quotient of the program is at most one; dividing and then multiplying by 100
  leaves an error below \<open>2\<^sup>-\<^sup>4\<^sup>5\<close>.
\<close>

lemma percent_error:
  assumes "0 < x" and "x \<le> 1"
  shows "\<bar>fmul (binary64 x) 100 - 100 * x\<bar> < 1 / 2 ^ 45"
proof -
  define y where "y = binary64 x"
  have e1: "\<bar>y - x\<bar> \<le> 1 / 2 ^ 53"
  proof -
    have "\<bar>y - x\<bar> \<le> x / 2 ^ 53" unfolding y_def by (rule binary64_error[OF assms(1)])
    also have "\<dots> \<le> 1 / 2 ^ 53" using assms(2) by (simp add: divide_right_mono)
    finally show ?thesis .
  qed
  have "x / 2 ^ 53 < x" using assms(1) by simp
  with binary64_error[OF assms(1)] have ypos: "0 < y" unfolding y_def by linarith
  have yle: "y \<le> 1 + 1 / 2 ^ 53" using e1 assms(2) by linarith
  have y100: "0 < y * 100" using ypos by simp
  have e2: "\<bar>binary64 (y * 100) - y * 100\<bar> \<le> y * 100 / 2 ^ 53"
    by (rule binary64_error[OF y100])
  have "y * 100 / 2 ^ 53 \<le> (1 + 1 / 2 ^ 53) * 100 / 2 ^ 53"
    using yle by (simp add: divide_right_mono)
  with e2 have e3: "\<bar>binary64 (y * 100) - y * 100\<bar> \<le> (1 + 1 / 2 ^ 53) * 100 / 2 ^ 53"
    by linarith
  have "binary64 (y * 100) - 100 * x = (binary64 (y * 100) - y * 100) + 100 * (y - x)"
    by (simp add: algebra_simps)
  then have "\<bar>binary64 (y * 100) - 100 * x\<bar> \<le>
      \<bar>binary64 (y * 100) - y * 100\<bar> + \<bar>100 * (y - x)\<bar>"
    using abs_triangle_ineq[of "binary64 (y * 100) - y * 100" "100 * (y - x)"] by simp
  also have "\<bar>100 * (y - x)\<bar> = 100 * \<bar>y - x\<bar>"
    by (simp only: abs_mult abs_numeral)
  finally have "\<bar>binary64 (y * 100) - 100 * x\<bar> \<le>
      \<bar>binary64 (y * 100) - y * 100\<bar> + 100 * \<bar>y - x\<bar>" .
  also have "\<dots> \<le> (1 + 1 / 2 ^ 53) * 100 / 2 ^ 53 + 100 * (1 / 2 ^ 53)"
    using e3 mult_left_mono[OF e1, of 100] by (intro add_mono) simp_all
  also have "\<dots> < 1 / 2 ^ 45" by simp
  finally show ?thesis by (simp add: fmul_def y_def)
qed

lemma Math_round_near:
  fixes c :: rat
  assumes "odd t" and "even m" and "0 < m"
    and "\<bar>c + 1 / 2 - of_int t / of_int m\<bar> < 1 / of_int m"
  shows "Math_round c = t div m"
proof -
  define q where "q = t div m"
  define r where "r = t mod m"
  have t: "t = m * q + r" by (simp add: q_def r_def)
  have "odd (m * q + r)" using assms(1) t by simp
  then have "odd r" using assms(2) by simp
  then have "r \<noteq> 0" by auto
  moreover have "0 \<le> r" "r < m" using assms(3) by (simp_all add: r_def)
  moreover have "r \<noteq> m - 1 + 1" using \<open>r < m\<close> by simp
  ultimately have r1: "1 \<le> r" and r2: "r \<le> m - 1" by linarith+
  have mpos: "(0::rat) < of_int m" using assms(3) by simp
  have "of_int t / of_int m = (of_int q :: rat) + of_int r / of_int m"
    using mpos by (simp add: t field_simps)
  moreover have "(1::rat) / of_int m \<le> of_int r / of_int m"
    using r1 mpos by (simp add: divide_right_mono)
  moreover have "of_int r / of_int m \<le> (of_int m - 1) / (of_int m :: rat)"
    using r2 mpos by (intro divide_right_mono) (simp_all flip: of_int_diff add: of_int_le_iff del: of_int_diff)
  moreover have "(of_int m - 1) / (of_int m :: rat) = 1 - 1 / of_int m"
    using mpos by (simp add: field_simps)
  ultimately have "of_int q < c + 1 / 2" "c + 1 / 2 < of_int q + 1"
    using assms(4) by linarith+
  then have "\<lfloor>c + 1 / 2\<rfloor> = q" by (intro floor_unique) simp_all
  then show ?thesis by (simp add: Math_round_def q_def)
qed


lemma fdiv_fmul_zero: "fmul (fdiv 0 b) 100 = 0"
  by (simp add: fdiv_def fmul_def binary64_def)

text \<open>
  A multiple of five over 40 or over 80 is a number of eighths or of sixteenths: the
  quotient and the product are exact.
\<close>

lemma percent_dyadic:
  assumes "0 < j" and "j < 1000"
  shows "fmul (fdiv (of_int (5 * j)) (5 * 2 ^ k)) 100 = 100 * of_int (5 * j) / (5 * 2 ^ k)"
proof -
  have q: "(of_int (5 * j) :: rat) / (5 * 2 ^ k) = of_int j * pow2 (- int k)"
    by (simp add: pow2_def)
  have a: "fdiv (of_int (5 * j)) (5 * 2 ^ k) = of_int j * pow2 (- int k)"
    unfolding fdiv_def q using assms by (intro binary64_exact) simp_all
  have b: "of_int j * pow2 (- int k) * 100 = of_int (100 * j) * pow2 (- int k)"
    by simp
  have "fmul (fdiv (of_int (5 * j)) (5 * 2 ^ k)) 100 = binary64 (of_int j * pow2 (- int k) * 100)"
    by (simp only: fmul_def a)
  also have "\<dots> = binary64 (of_int (100 * j) * pow2 (- int k))"
    by (simp only: b)
  also have "\<dots> = of_int (100 * j) * pow2 (- int k)"
    using assms by (intro binary64_exact) simp_all
  also have "\<dots> = 100 * of_int (5 * j) / (5 * 2 ^ k)"
    by (simp add: pow2_def)
  finally show ?thesis .
qed

lemma percent_40:
  assumes "0 \<le> i" and "5 dvd i" and "i < 40"
  shows "fmul (fdiv (of_int i) 40) 100 = 100 * of_int i / 40"
proof (cases "i = 0")
  case True
  then show ?thesis by (simp add: fdiv_fmul_zero)
next
  case False
  from assms(2) obtain j where j: "i = 5 * j" by (auto simp: dvd_def)
  with assms False have "0 < j" "j < 1000" by simp_all
  then show ?thesis using percent_dyadic[of j 3] by (simp add: j)
qed

lemma percent_80:
  assumes "0 \<le> i" and "5 dvd i" and "i < 80"
  shows "fmul (fdiv (of_int i) 80) 100 = 100 * of_int i / 80"
proof (cases "i = 0")
  case True
  then show ?thesis by (simp add: fdiv_fmul_zero)
next
  case False
  from assms(2) obtain j where j: "i = 5 * j" by (auto simp: dvd_def)
  with assms False have "0 < j" "j < 1000" by simp_all
  then show ?thesis using percent_dyadic[of j 4] by (simp add: j)
qed

text \<open>
  Over 140 and over 220 the exact percentage is never half way between two integers,
  and the error of the two roundings is too small to reach the next half.
\<close>

lemma percent_near:
  assumes "0 < i" and "i \<le> sp" and "odd t" and "even m" and "0 < m" and "m \<le> 1000"
    and v: "100 * of_int i / of_int sp + 1 / 2 = (of_int t / of_int m :: rat)"
  shows "Math_round (fmul (fdiv (of_int i) (of_int sp)) 100) =
         Math_round (100 * of_int i / of_int sp)"
proof -
  define x :: rat where "x = of_int i / of_int sp"
  have sp: "(0::rat) < of_int sp" using assms(1,2) by simp
  have x: "0 < x" "x \<le> 1"
    using assms(1,2) sp by (simp_all add: x_def)
  have small: "(1::rat) / 2 ^ 45 \<le> 1 / of_int m"
  proof -
    have "(of_int m :: rat) \<le> of_int 1000" using assms(6) by (simp only: of_int_le_iff)
    then have "(of_int m :: rat) \<le> 2 ^ 45" by simp
    moreover have "(0::rat) < of_int m" using assms(5) by simp
    ultimately show ?thesis by (simp add: frac_le)
  qed
  have "\<bar>fmul (binary64 x) 100 - 100 * x\<bar> < 1 / of_int m"
    using percent_error[OF x] small by linarith
  moreover have "100 * x + 1 / 2 = of_int t / of_int m"
    using v by (simp add: x_def)
  ultimately have "\<bar>fmul (binary64 x) 100 + 1 / 2 - of_int t / of_int m\<bar> < 1 / of_int m"
    by (simp add: algebra_simps)
  then have a: "Math_round (fmul (binary64 x) 100) = t div m"
    by (rule Math_round_near[OF assms(3,4,5)])
  have "\<bar>100 * x + 1 / 2 - of_int t / of_int m\<bar> < 1 / of_int m"
    using \<open>100 * x + 1 / 2 = of_int t / of_int m\<close> assms(5) by simp
  then have b: "Math_round (100 * x) = t div m"
    by (rule Math_round_near[OF assms(3,4,5)])
  from a b show ?thesis by (simp add: x_def fdiv_def)
qed

lemma percent_140:
  assumes "0 \<le> i" and "i < 140"
  shows "Math_round (fmul (fdiv (of_int i) 140) 100) = Math_round (100 * of_int i / 140)"
proof (cases "i = 0")
  case True
  then show ?thesis by (simp add: fdiv_fmul_zero)
next
  case False
  have "100 * of_int i / of_int 140 + 1 / 2 = (of_int (10 * i + 7) / of_int 14 :: rat)"
    by (simp add: field_simps)
  with assms False show ?thesis
    using percent_near[of i 140 "10 * i + 7" 14] by simp
qed

lemma percent_220:
  assumes "0 \<le> i" and "i < 220"
  shows "Math_round (fmul (fdiv (of_int i) 220) 100) = Math_round (100 * of_int i / 220)"
proof (cases "i = 0")
  case True
  then show ?thesis by (simp add: fdiv_fmul_zero)
next
  case False
  have "100 * of_int i / of_int 220 + 1 / 2 = (of_int (10 * i + 11) / of_int 22 :: rat)"
    by (simp add: field_simps)
  with assms False show ?thesis
    using percent_near[of i 220 "10 * i + 11" 22] by simp
qed

subsection \<open>Levels\<close>

lemma levelSearch_cases:
  "levelSearch p =
     (if 480 \<le> p then (LEVELS ! 4, None)
      else if 260 \<le> p then (LEVELS ! 3, Some (LEVELS ! 4))
      else if 120 \<le> p then (LEVELS ! 2, Some (LEVELS ! 3))
      else if 40 \<le> p then (LEVELS ! 1, Some (LEVELS ! 2))
      else if 0 \<le> p then (LEVELS ! 0, Some (LEVELS ! 1))
      else (LEVELS ! 0, None))"
proof -
  have idx: "[0..<length LEVELS] = [0, 1, 2, 3, 4]"
    by (simp add: LEVELS_def upt_rec)
  show ?thesis
    unfolding levelSearch_def idx
    by (simp add: LEVELS_def nth_or_null_def)
qed

lemma info_label_eq: "info_label (getLevelInfo p) = label (fst (levelSearch p))"
  by (simp add: getLevelInfo_def Let_def split: prod.splits option.splits)

lemma LEVELS_ascending: "sorted_wrt (<) (map threshold LEVELS)"
  by (simp add: LEVELS_def)

text \<open>
  The label is that of the tier with the greatest threshold up to the points: the
  thresholds ascend, so that tier is the last one of the table that qualifies.
\<close>

lemma getLevelInfo_label:
  assumes "0 \<le> p"
  shows "info_label (getLevelInfo p) = label (last (filter (\<lambda>lv. threshold lv \<le> p) LEVELS))"
proof -
  consider "480 \<le> p" | "260 \<le> p" "p < 480" | "120 \<le> p" "p < 260"
    | "40 \<le> p" "p < 120" | "p < 40"
    by linarith
  then show ?thesis
    using assms by cases (simp_all add: info_label_eq levelSearch_cases LEVELS_def)
qed

lemma getLevelInfo_top:
  "480 \<le> p \<Longrightarrow>
     getLevelInfo p =
       \<lparr>info_label = ''Grove guardian'', progressPercent = 100,
        caption = ''You reached the top tier '' @ [CHR 0xE2, CHR 0x80, CHR 0x93] @
                  '' keep the grove thriving!''\<rparr>"
  by (simp add: getLevelInfo_def levelSearch_cases LEVELS_def)

lemma getLevelInfo_caption:
  assumes "0 \<le> p" and "p < 480"
  shows "caption (getLevelInfo p) =
           (case snd (levelSearch p) of
              Some next \<Rightarrow> toString (threshold next - p) @ '' points until '' @ label next @ ''.''
            | None \<Rightarrow> [])"
  using assms by (simp add: getLevelInfo_def levelSearch_cases Let_def)

lemma getLevelInfo_zero:
  "info_label (getLevelInfo 0) = ''Seedling'' \<and> progressPercent (getLevelInfo 0) = 0"
  by code_simp

text \<open>
  For points that are a multiple of five, the percentage of the program is the
  percentage computed exactly.
\<close>

lemma progressPercent_exact:
  assumes "0 \<le> p" and "5 dvd p" and "levelSearch p = (current, Some next)"
  shows "progressPercent (getLevelInfo p) =
           min 100 (Math_round (100 * of_int (p - threshold current)
                                  / of_int (threshold next - threshold current)))"
proof -
  consider "480 \<le> p" | "260 \<le> p" "p < 480" | "120 \<le> p" "p < 260"
    | "40 \<le> p" "p < 120" | "p < 40"
    by linarith
  then show ?thesis
  proof cases
    case 1
    with assms(3) show ?thesis by (simp add: levelSearch_cases)
  next
    case 2
    with assms(3) have c: "current = LEVELS ! 3" "next = LEVELS ! 4"
      by (simp_all add: levelSearch_cases)
    have "Math_round (fmul (fdiv (of_int (p - 260)) 220) 100) =
          Math_round (100 * of_int (p - 260) / 220)"
      using 2 by (intro percent_220) simp_all
    then show ?thesis
      using assms(3) by (simp add: getLevelInfo_def c LEVELS_def Let_def)
  next
    case 3
    with assms(3) have c: "current = LEVELS ! 2" "next = LEVELS ! 3"
      by (simp_all add: levelSearch_cases)
    have "Math_round (fmul (fdiv (of_int (p - 120)) 140) 100) =
          Math_round (100 * of_int (p - 120) / 140)"
      using 3 by (intro percent_140) simp_all
    then show ?thesis
      using assms(3) by (simp add: getLevelInfo_def c LEVELS_def Let_def)
  next
    case 4
    with assms(3) have c: "current = LEVELS ! 1" "next = LEVELS ! 2"
      by (simp_all add: levelSearch_cases)
    have "5 dvd p - 40" using assms(2) by (simp add: dvd_diff)
    then have "fmul (fdiv (of_int (p - 40)) 80) 100 = 100 * of_int (p - 40) / 80"
      using 4 by (intro percent_80) simp_all
    then have "Math_round (fmul (fdiv (of_int (p - 40)) 80) 100) =
          Math_round (100 * of_int (p - 40) / 80)"
      by (simp only:)
    then show ?thesis
      using assms(3) by (simp add: getLevelInfo_def c LEVELS_def Let_def)
  next
    case 5
    with assms(1,3) have c: "current = LEVELS ! 0" "next = LEVELS ! 1"
      by (simp_all add: levelSearch_cases)
    have "fmul (fdiv (of_int p) 40) 100 = 100 * of_int p / 40"
      using 5 assms(1,2) by (intro percent_40) simp_all
    then have "Math_round (fmul (fdiv (of_int p) 40) 100) = Math_round (100 * of_int p / 40)"
      by (simp only:)
    then show ?thesis
      using assms(3) by (simp add: getLevelInfo_def c LEVELS_def Let_def)
  qed
qed

lemma levelSearch_current:
  assumes "0 \<le> p"
  shows "fst (levelSearch p) \<in> set LEVELS \<and> threshold (fst (levelSearch p)) \<le> p \<and>
         (\<forall>lv \<in> set LEVELS. threshold lv \<le> p \<longrightarrow> threshold lv \<le> threshold (fst (levelSearch p)))"
  using assms by (simp add: levelSearch_cases LEVELS_def)

lemma levelSearch_next:
  assumes "0 \<le> p"
  shows "\<exists>i < length LEVELS. fst (levelSearch p) = LEVELS ! i \<and>
           snd (levelSearch p) = nth_or_null LEVELS (Suc i)"
proof -
  have len: "length LEVELS = 5" by (simp add: LEVELS_def)
  consider "480 \<le> p" | "260 \<le> p" "p < 480" | "120 \<le> p" "p < 260"
    | "40 \<le> p" "p < 120" | "p < 40"
    by linarith
  then show ?thesis
  proof cases
    case 1
    then show ?thesis
      by (intro exI[of _ 4]) (simp add: levelSearch_cases nth_or_null_def LEVELS_def)
  next
    case 2
    then show ?thesis
      by (intro exI[of _ 3]) (simp add: levelSearch_cases nth_or_null_def LEVELS_def)
  next
    case 3
    then show ?thesis
      by (intro exI[of _ 2]) (simp add: levelSearch_cases nth_or_null_def LEVELS_def)
  next
    case 4
    then show ?thesis
      by (intro exI[of _ 1]) (simp add: levelSearch_cases nth_or_null_def LEVELS_def)
  next
    case 5
    with assms show ?thesis
      by (intro exI[of _ 0]) (simp add: levelSearch_cases nth_or_null_def LEVELS_def)
  qed
qed

lemma getLevelInfo_last:
  "levelSearch p = (current, None) \<Longrightarrow>
     getLevelInfo p =
       \<lparr>info_label = label current, progressPercent = 100,
        caption = ''You reached the top tier '' @ [CHR 0xE2, CHR 0x80, CHR 0x93] @
                  '' keep the grove thriving!''\<rparr>"
  by (simp add: getLevelInfo_def)

lemma getLevelInfo_caption_next:
  "levelSearch p = (current, Some next) \<Longrightarrow>
     caption (getLevelInfo p) =
       toString (threshold next - p) @ '' points until '' @ label next @ ''.''"
  by (simp add: getLevelInfo_def Let_def)

lemma getLevelInfo_multiple_of_five:
  assumes "0 \<le> p" and "5 dvd p"
  shows "(case levelSearch p of
            (current, next) \<Rightarrow>
              current \<in> set LEVELS \<and> threshold current \<le> p \<and>
              (\<forall>lv \<in> set LEVELS. threshold lv \<le> p \<longrightarrow> threshold lv \<le> threshold current) \<and>
              (\<exists>i < length LEVELS. current = LEVELS ! i \<and> next = nth_or_null LEVELS (Suc i)) \<and>
              info_label (getLevelInfo p) = label current \<and>
              (case next of
                 None \<Rightarrow>
                   progressPercent (getLevelInfo p) = 100 \<and>
                   caption (getLevelInfo p) =
                     ''You reached the top tier '' @ [CHR 0xE2, CHR 0x80, CHR 0x93] @
                     '' keep the grove thriving!''
               | Some nxt \<Rightarrow>
                   progressPercent (getLevelInfo p) =
                     min 100 (Math_round (100 * of_int (p - threshold current)
                                            / of_int (threshold nxt - threshold current))) \<and>
                   caption (getLevelInfo p) =
                     toString (threshold nxt - p) @ '' points until '' @ label nxt @ ''.''))"
proof -
  obtain cur nx where ls: "levelSearch p = (cur, nx)"
    by (cases "levelSearch p")
  have a: "cur \<in> set LEVELS \<and> threshold cur \<le> p \<and>
      (\<forall>lv \<in> set LEVELS. threshold lv \<le> p \<longrightarrow> threshold lv \<le> threshold cur)"
    using levelSearch_current[OF assms(1)] by (simp add: ls)
  have b: "\<exists>i < length LEVELS. cur = LEVELS ! i \<and> nx = nth_or_null LEVELS (Suc i)"
    using levelSearch_next[OF assms(1)] by (simp add: ls)
  have c: "info_label (getLevelInfo p) = label cur"
    by (simp add: info_label_eq ls)
  have d: "(case nx of
       None \<Rightarrow>
         progressPercent (getLevelInfo p) = 100 \<and>
         caption (getLevelInfo p) =
           ''You reached the top tier '' @ [CHR 0xE2, CHR 0x80, CHR 0x93] @
           '' keep the grove thriving!''
     | Some nxt \<Rightarrow>
         progressPercent (getLevelInfo p) =
           min 100 (Math_round (100 * of_int (p - threshold cur)
                                  / of_int (threshold nxt - threshold cur))) \<and>
         caption (getLevelInfo p) =
           toString (threshold nxt - p) @ '' points until '' @ label nxt @ ''.'')"
  proof (cases nx)
    case None
    then show ?thesis using getLevelInfo_last[of p cur] ls by simp
  next
    case (Some nxt)
    then show ?thesis
      using progressPercent_exact[OF assms, of cur nxt]
        getLevelInfo_caption_next[of p cur nxt] ls
      by simp
  qed
  from a b c d show ?thesis by (simp only: ls prod.case) blast
qed

text \<open>
  Claim C6: \<open>getLevelInfo\<close> gives the label of the tier with the greatest threshold up to
  the points; with a next tier, the percentage
  \<open>min(100, round(100 * (points - current) / (next - current)))\<close> and a caption with
  \<open>next - points\<close> points remaining; on the last tier, 100 and the caption of the top
  tier; the first label and 0 for no points, the last label and 100 from 480 points on.
  The program calls \<open>getLevelInfo\<close> with \<open>state.points\<close> only, and the points of a
  reachable state are a multiple of five and not negative (\<open>reachable_points\<close>).
\<close>

theorem getLevelInfo_correct:
  "reachable s \<Longrightarrow>
     (case levelSearch (points s) of
        (current, next) \<Rightarrow>
          current \<in> set LEVELS \<and> threshold current \<le> points s \<and>
          (\<forall>lv \<in> set LEVELS. threshold lv \<le> points s \<longrightarrow> threshold lv \<le> threshold current) \<and>
          (\<exists>i < length LEVELS. current = LEVELS ! i \<and> next = nth_or_null LEVELS (Suc i)) \<and>
          info_label (getLevelInfo (points s)) = label current \<and>
          (case next of
             None \<Rightarrow>
               progressPercent (getLevelInfo (points s)) = 100 \<and>
               caption (getLevelInfo (points s)) =
                 ''You reached the top tier '' @ [CHR 0xE2, CHR 0x80, CHR 0x93] @
                 '' keep the grove thriving!''
           | Some nxt \<Rightarrow>
               progressPercent (getLevelInfo (points s)) =
                 min 100 (Math_round (100 * of_int (points s - threshold current)
                                        / of_int (threshold nxt - threshold current))) \<and>
               caption (getLevelInfo (points s)) =
                 toString (threshold nxt - points s) @ '' points until '' @ label nxt @ ''.'')) \<and>
     (points s = 0 \<longrightarrow>
        info_label (getLevelInfo (points s)) = label (LEVELS ! 0) \<and>
        progressPercent (getLevelInfo (points s)) = 0) \<and>
     (480 \<le> points s \<longrightarrow>
        info_label (getLevelInfo (points s)) = label (last LEVELS) \<and>
        progressPercent (getLevelInfo (points s)) = 100)"
proof -
  assume r: "reachable s"
  have p: "0 \<le> points s" "5 dvd points s"
    using reachable_points[OF r] by simp_all
  have z: "points s = 0 \<longrightarrow>
        info_label (getLevelInfo (points s)) = label (LEVELS ! 0) \<and>
        progressPercent (getLevelInfo (points s)) = 0"
    using getLevelInfo_zero by (simp add: LEVELS_def)
  have t: "480 \<le> points s \<longrightarrow>
        info_label (getLevelInfo (points s)) = label (last LEVELS) \<and>
        progressPercent (getLevelInfo (points s)) = 100"
    by (simp add: getLevelInfo_top LEVELS_def)
  from getLevelInfo_multiple_of_five[OF p] z t show ?thesis by blast
qed

text \<open>With five points: the first tier, 12.5 percent rounded up to 13, and 35 points to go.\<close>

theorem getLevelInfo_correct_witness:
  "reachable waterDoneState \<and> points waterDoneState = 5 \<and>
   getLevelInfo (points waterDoneState) =
     \<lparr>info_label = ''Seedling'', progressPercent = 13,
      caption = ''35 points until Sprout.''\<rparr>"
proof -
  have p: "points waterDoneState = 5"
    by (simp add: waterDoneState_eq)
  have ls: "levelSearch 5 = (LEVELS ! 0, Some (LEVELS ! 1))"
    by (simp add: levelSearch_cases)
  have m: "min 100 (Math_round (100 * of_int (5 - threshold (LEVELS ! 0))
      / of_int (threshold (LEVELS ! 1) - threshold (LEVELS ! 0)))) = 13"
    by code_simp
  have c: "toString (threshold (LEVELS ! 1) - 5) = ''35''"
    by (simp add: LEVELS_def toString_def natToString.simps)
  have l: "label (LEVELS ! 0) = ''Seedling''" "label (LEVELS ! 1) = ''Sprout''"
    by (simp_all add: LEVELS_def)
  note t = getLevelInfo_correct[OF reachable_waterDoneState]
  have "info_label (getLevelInfo 5) = ''Seedling'' \<and> progressPercent (getLevelInfo 5) = 13 \<and>
      caption (getLevelInfo 5) = ''35 points until Sprout.''"
    using t[unfolded p ls prod.case option.case m c l] by simp
  then have "getLevelInfo 5 =
      \<lparr>info_label = ''Seedling'', progressPercent = 13, caption = ''35 points until Sprout.''\<rparr>"
    by (cases "getLevelInfo 5") simp
  then show ?thesis
    using reachable_waterDoneState p by simp
qed

text \<open>
  The hypothesis matters. The program rounds the quotient before it multiplies, and for
  23 points, which no run of the program gives, \<open>23 / 40\<close> rounds to a number below 0.575,
  the product to a number below 57.5, and the percentage is 57 where the exact
  percentage 57.5 rounds to 58.
\<close>

lemma getLevelInfo_23:
  "progressPercent (getLevelInfo 23) = 57 \<and>
   min 100 (Math_round (100 * of_int (23 - threshold (LEVELS ! 0))
                          / of_int (threshold (LEVELS ! 1) - threshold (LEVELS ! 0)))) = 58"
  by code_simp

subsection \<open>Adding a habit\<close>

lemma fold_max_Max:
  "fold max (map habit_order hs) (habit_order h) = Max (habit_order ` set (h # hs))"
  using Max.set_eq_fold[of "habit_order h" "map habit_order hs"] by simp

lemma add_empty: "trim v = [] \<Longrightarrow> addHabitForm_submit now v s = s"
  by (simp add: addHabitForm_submit_def)

lemma add_habits:
  "trim v \<noteq> [] \<Longrightarrow>
     habits (addHabitForm_submit now v s) =
       habits s @ [\<lparr>habit_id = ''habit_'' @ toString now, habit_name = trim v,
                    habit_createdAt = getTodayKey now,
                    habit_order = 1 + (if habits s = [] then - 1
                                       else Max (habit_order ` set (habits s)))\<rparr>]"
  by (cases "habits s")
    (simp_all add: addHabitForm_submit_def Let_def renderHabitList_def fold_max_Max
      del: Max_insert set_simps)

lemma add_lookup:
  "trim v \<noteq> [] \<Longrightarrow>
     map_of (completions (addHabitForm_submit now v s)) d =
       (if d = getTodayKey now \<and> map_of (completions s) d = None then Some []
        else map_of (completions s) d)"
  by (auto simp: addHabitForm_submit_def Let_def renderHabitList_def ensureDateEntry_lookup)

lemma add_points: "points (addHabitForm_submit now v s) = points s"
  by (simp add: addHabitForm_submit_def Let_def renderHabitList_def)

lemma add_completions_present:
  "map_of (completions s) (getTodayKey now) \<noteq> None \<Longrightarrow>
     completions (addHabitForm_submit now v s) = completions s"
  by (auto simp: addHabitForm_submit_def Let_def renderHabitList_def ensureDateEntry_def
      split: option.splits)

lemma add_isDone:
  "isHabitDoneOnDate (addHabitForm_submit now v s) h d = isHabitDoneOnDate s h d"
  by (simp add: addHabitForm_submit_def Let_def renderHabitList_def isHabitDoneOnDate_def
      ensureDateEntry_lookup)

lemma trim_examples: "trim '' Stretch '' = ''Stretch''" "trim [CHR 0x20, CHR 0x09] = []"
  by (simp_all add: trim_def isWhiteSpace_def)

lemma toString_exampleNow: "toString exampleNow = ''1730700000000''"
  by (simp add: exampleNow_def toString_def natToString.simps)

text \<open>
  Claim C9, as the specification states it: a name that trims to the empty string
  changes nothing; any other name appends one habit whose id differs from every
  existing id and whose order is one more than the greatest existing order (\<open>-1\<close> when
  there is none), and leaves the existing habits, the ledger and the points as they
  were. The handler ends with \<open>renderHabitList\<close>, which creates the entry of today when
  it is missing: a page opened the day before has the ledger \<open>{20030: {}}\<close>, and adding
  a habit makes it \<open>{20030: {}, 20031: {}}\<close>. The id is \<open>habit_\<close> and the clock reading
  in milliseconds, so a second habit added at the same reading gets the id of the
  first.
\<close>

theorem addHabitForm_submit_counterexample:
  "completions startedYesterday = [(20030, [])] \<and>
   completions (addHabitForm_submit exampleNow ''Stretch'' startedYesterday) =
     [(20030, []), (20031, [])] \<and>
   habit_id (last (habits (addHabitForm_submit exampleNow ''Sleep''
               (addHabitForm_submit exampleNow ''Stretch'' startedYesterday))))
     \<in> habit_id ` set (habits (addHabitForm_submit exampleNow ''Stretch'' startedYesterday))"
proof -
  have y: "getTodayKey (exampleNow - msPerDay) = 20030"
    by (simp add: exampleNow_def getTodayKey_def toISOKey_def msPerDay_def)
  have t1: "trim ''Stretch'' = ''Stretch''" and t2: "trim ''Sleep'' = ''Sleep''"
    by (simp_all add: trim_def isWhiteSpace_def)
  have a: "completions startedYesterday = [(20030, [])]"
    by (simp add: startedYesterday_def renderHabitList_def ensureDateEntry_def y
        createInitialState_def Let_def)
  have b: "completions (addHabitForm_submit exampleNow ''Stretch'' startedYesterday) =
      [(20030, []), (20031, [])]"
    by (simp add: addHabitForm_submit_def t1 Let_def renderHabitList_def ensureDateEntry_def
        today_example a)
  have c: "habits (addHabitForm_submit exampleNow ''Sleep''
               (addHabitForm_submit exampleNow ''Stretch'' startedYesterday)) =
           habits (addHabitForm_submit exampleNow ''Stretch'' startedYesterday) @
             [\<lparr>habit_id = ''habit_'' @ toString exampleNow, habit_name = ''Sleep'',
               habit_createdAt = getTodayKey exampleNow,
               habit_order = 1 + Max (habit_order ` set (habits
                  (addHabitForm_submit exampleNow ''Stretch'' startedYesterday)))\<rparr>]"
    using add_habits[of "''Sleep''" exampleNow
        "addHabitForm_submit exampleNow ''Stretch'' startedYesterday"]
      add_habits[of "''Stretch''" exampleNow startedYesterday]
    by (simp add: t1 t2)
  have d: "habit_id (last (habits (addHabitForm_submit exampleNow ''Stretch'' startedYesterday)))
      = ''habit_'' @ toString exampleNow"
    using add_habits[of "''Stretch''" exampleNow startedYesterday] by (simp add: t1)
  have e: "habits (addHabitForm_submit exampleNow ''Stretch'' startedYesterday) \<noteq> []"
    using add_habits[of "''Stretch''" exampleNow startedYesterday] by (simp add: t1)
  have "habit_id (last (habits (addHabitForm_submit exampleNow ''Stretch'' startedYesterday)))
      \<in> habit_id ` set (habits (addHabitForm_submit exampleNow ''Stretch'' startedYesterday))"
    using e by simp
  with a b c d show ?thesis by simp
qed

text \<open>
  Claim C9, amended: a name that trims to the empty string changes nothing. Any other
  name appends one habit, with the id \<open>habit_\<close> followed by the clock reading, the
  trimmed name, today as its day of creation and an order one more than the greatest
  existing order (\<open>-1\<close> when there is none); the existing habits and the points stay as
  they were; the ledger gets an empty entry for today when it has none and is unchanged
  otherwise, so no answer of \<open>isHabitDoneOnDate\<close> changes.
\<close>

theorem addHabitForm_submit_contract:
  "(trim v = [] \<longrightarrow> addHabitForm_submit now v s = s) \<and>
   (trim v \<noteq> [] \<longrightarrow>
      habits (addHabitForm_submit now v s) =
        habits s @ [\<lparr>habit_id = ''habit_'' @ toString now, habit_name = trim v,
                     habit_createdAt = getTodayKey now,
                     habit_order = 1 + (if habits s = [] then - 1
                                        else Max (habit_order ` set (habits s)))\<rparr>] \<and>
      points (addHabitForm_submit now v s) = points s \<and>
      (\<forall>d. map_of (completions (addHabitForm_submit now v s)) d =
            (if d = getTodayKey now \<and> map_of (completions s) d = None then Some []
             else map_of (completions s) d)) \<and>
      (map_of (completions s) (getTodayKey now) \<noteq> None \<longrightarrow>
         completions (addHabitForm_submit now v s) = completions s) \<and>
      (\<forall>h d. isHabitDoneOnDate (addHabitForm_submit now v s) h d = isHabitDoneOnDate s h d))"
  by (simp add: add_empty add_habits add_lookup add_points add_completions_present add_isDone)

theorem addHabitForm_submit_contract_witness:
  "trim '' Stretch '' \<noteq> [] \<and>
   habits (addHabitForm_submit exampleNow '' Stretch '' (createInitialState exampleNow)) =
     habits (createInitialState exampleNow) @
       [\<lparr>habit_id = ''habit_1730700000000'', habit_name = ''Stretch'',
         habit_createdAt = 20031, habit_order = 3\<rparr>] \<and>
   trim [CHR 0x20, CHR 0x09] = [] \<and>
   addHabitForm_submit exampleNow [CHR 0x20, CHR 0x09] (createInitialState exampleNow) =
     createInitialState exampleNow"
proof -
  have o: "Max (habit_order ` set (habits (createInitialState exampleNow))) = 2"
    by (simp add: createInitialState_def DEFAULT_HABITS_def Let_def)
  have ne: "habits (createInitialState exampleNow) \<noteq> []"
    by (simp add: createInitialState_def DEFAULT_HABITS_def Let_def)
  show ?thesis
    using addHabitForm_submit_contract[of " '' Stretch ''" exampleNow
        "createInitialState exampleNow"]
      addHabitForm_submit_contract[of "[CHR 0x20, CHR 0x09]" exampleNow
        "createInitialState exampleNow"]
    by (simp add: trim_examples toString_exampleNow today_example o ne)
qed

end
